theory Spec2Isabelle
  imports Complex_Main
begin

section \<open>JavaScript values\<close>

text \<open>
  A JavaScript string is a sequence of UTF-16 code units. A code unit is modelled as a
  natural number (every real code unit is below 65536, so the model has every real string
  and some more). \<open>js\<close> turns an ASCII literal of the source into that form.
\<close>

type_synonym code_unit = nat
type_synonym jsstr = "code_unit list"

definition js :: "string \<Rightarrow> jsstr" where
  "js s = map of_char s"

text \<open>
  A JavaScript number is modelled as an exact rational: every finite double is one.
  Rounding to the nearest double, infinities and NaN are outside the model.
\<close>

type_synonym jsnum = rat

section \<open>Vitals: \<open>checkNormalRanges\<close> (src/models/Vitals.js)\<close>

text \<open>
  The nested paths of \<open>vitalsSchema\<close> that the method reads. A group that is absent is
  \<open>None\<close> (the guard \<open>if (this.bloodPressure)\<close> fails); inside a group, a field that was
  never set is \<open>undefined\<close>, again \<open>None\<close>.
\<close>

record blood_pressure =
  systolic :: "jsnum option"
  diastolic :: "jsnum option"

record blood_sugar =
  fasting :: "jsnum option"
  postPrandial :: "jsnum option"

record reading =
  reading_value :: "jsnum option"

record vitals =
  bloodPressure :: "blood_pressure option"
  bloodSugar :: "blood_sugar option"
  heartRate :: "reading option"
  temperature :: "reading option"
  oxygenSaturation :: "reading option"

text \<open>
  \<open>x > t\<close> and \<open>x < t\<close> where \<open>x\<close> may be \<open>undefined\<close>: the comparison converts
  \<open>undefined\<close> to NaN and is false.
\<close>

definition js_gt :: "jsnum option \<Rightarrow> jsnum \<Rightarrow> bool" where
  "js_gt x t = (case x of None \<Rightarrow> False | Some v \<Rightarrow> v > t)"

definition js_lt :: "jsnum option \<Rightarrow> jsnum \<Rightarrow> bool" where
  "js_lt x t = (case x of None \<Rightarrow> False | Some v \<Rightarrow> v < t)"

definition bloodPressure_alerts :: "blood_pressure option \<Rightarrow> string list" where
  "bloodPressure_alerts g =
     (case g of
        None \<Rightarrow> []
      | Some bp \<Rightarrow>
          (if js_gt (systolic bp) 140 \<or> js_gt (diastolic bp) 90
           then [''High blood pressure detected''] else []) @
          (if js_lt (systolic bp) 90 \<or> js_lt (diastolic bp) 60
           then [''Low blood pressure detected''] else []))"

definition bloodSugar_alerts :: "blood_sugar option \<Rightarrow> string list" where
  "bloodSugar_alerts g =
     (case g of
        None \<Rightarrow> []
      | Some bs \<Rightarrow>
          (if js_gt (fasting bs) 126 then [''High fasting blood sugar''] else []) @
          (if js_gt (postPrandial bs) 200 then [''High post-meal blood sugar''] else []))"

definition heartRate_alerts :: "reading option \<Rightarrow> string list" where
  "heartRate_alerts g =
     (case g of
        None \<Rightarrow> []
      | Some r \<Rightarrow>
          (if js_gt (reading_value r) 100 \<or> js_lt (reading_value r) 60
           then [''Abnormal heart rate''] else []))"

definition temperature_alerts :: "reading option \<Rightarrow> string list" where
  "temperature_alerts g =
     (case g of
        None \<Rightarrow> []
      | Some r \<Rightarrow>
          (if js_gt (reading_value r) (1004 / 10) \<or> js_lt (reading_value r) 97
           then [''Abnormal body temperature''] else []))"

definition oxygenSaturation_alerts :: "reading option \<Rightarrow> string list" where
  "oxygenSaturation_alerts g =
     (case g of
        None \<Rightarrow> []
      | Some r \<Rightarrow>
          (if js_lt (reading_value r) 95 then [''Low oxygen saturation''] else []))"

text \<open>The method pushes the alerts in this order and returns the array.\<close>

definition checkNormalRanges :: "vitals \<Rightarrow> string list" where
  "checkNormalRanges v =
     bloodPressure_alerts (bloodPressure v) @
     bloodSugar_alerts (bloodSugar v) @
     heartRate_alerts (heartRate v) @
     temperature_alerts (temperature v) @
     oxygenSaturation_alerts (oxygenSaturation v)"

text \<open>
  What "inside every normal range" means for the method: no comparison of the method
  fires. A field that is absent is inside.
\<close>

definition in_range :: "jsnum option \<Rightarrow> jsnum \<Rightarrow> jsnum \<Rightarrow> bool" where
  "in_range x lo hi = (case x of None \<Rightarrow> True | Some v \<Rightarrow> lo \<le> v \<and> v \<le> hi)"

definition at_most :: "jsnum option \<Rightarrow> jsnum \<Rightarrow> bool" where
  "at_most x hi = (case x of None \<Rightarrow> True | Some v \<Rightarrow> v \<le> hi)"

definition at_least :: "jsnum option \<Rightarrow> jsnum \<Rightarrow> bool" where
  "at_least x lo = (case x of None \<Rightarrow> True | Some v \<Rightarrow> lo \<le> v)"

definition all_normal :: "vitals \<Rightarrow> bool" where
  "all_normal v \<longleftrightarrow>
     (case bloodPressure v of None \<Rightarrow> True
      | Some bp \<Rightarrow> in_range (systolic bp) 90 140 \<and> in_range (diastolic bp) 60 90) \<and>
     (case bloodSugar v of None \<Rightarrow> True
      | Some bs \<Rightarrow> at_most (fasting bs) 126 \<and> at_most (postPrandial bs) 200) \<and>
     (case heartRate v of None \<Rightarrow> True | Some r \<Rightarrow> in_range (reading_value r) 60 100) \<and>
     (case temperature v of None \<Rightarrow> True | Some r \<Rightarrow> in_range (reading_value r) 97 (1004 / 10)) \<and>
     (case oxygenSaturation v of None \<Rightarrow> True | Some r \<Rightarrow> at_least (reading_value r) 95)"

definition no_vitals :: vitals where
  "no_vitals = \<lparr>bloodPressure = None, bloodSugar = None, heartRate = None,
     temperature = None, oxygenSaturation = None\<rparr>"

section \<open>Properties of \<open>checkNormalRanges\<close>\<close>

lemma bloodPressure_alerts_high:
  "''High blood pressure detected'' \<in> set (bloodPressure_alerts g) \<longleftrightarrow>
     (\<exists>bp. g = Some bp \<and> (js_gt (systolic bp) 140 \<or> js_gt (diastolic bp) 90))"
  by (cases g) (simp_all add: bloodPressure_alerts_def)

lemma bloodSugar_alerts_high:
  "''High fasting blood sugar'' \<in> set (bloodSugar_alerts g) \<longleftrightarrow>
     (\<exists>bs. g = Some bs \<and> js_gt (fasting bs) 126)"
  by (cases g) (simp_all add: bloodSugar_alerts_def)

lemma heartRate_alerts_abnormal:
  "''Abnormal heart rate'' \<in> set (heartRate_alerts g) \<longleftrightarrow>
     (\<exists>r. g = Some r \<and> (js_gt (reading_value r) 100 \<or> js_lt (reading_value r) 60))"
  by (cases g) (simp_all add: heartRate_alerts_def)

lemma temperature_alerts_abnormal:
  "''Abnormal body temperature'' \<in> set (temperature_alerts g) \<longleftrightarrow>
     (\<exists>r. g = Some r \<and> (js_gt (reading_value r) (1004 / 10) \<or> js_lt (reading_value r) 97))"
  by (cases g) (simp_all add: temperature_alerts_def)

lemma oxygenSaturation_alerts_low:
  "''Low oxygen saturation'' \<in> set (oxygenSaturation_alerts g) \<longleftrightarrow>
     (\<exists>r. g = Some r \<and> js_lt (reading_value r) 95)"
  by (cases g) (simp_all add: oxygenSaturation_alerts_def)

lemma bloodPressure_alerts_set:
  "set (bloodPressure_alerts g) \<subseteq> {''High blood pressure detected'', ''Low blood pressure detected''}"
  by (cases g) (auto simp: bloodPressure_alerts_def split: if_splits)

lemma bloodSugar_alerts_set:
  "set (bloodSugar_alerts g) \<subseteq> {''High fasting blood sugar'', ''High post-meal blood sugar''}"
  by (cases g) (auto simp: bloodSugar_alerts_def split: if_splits)

lemma heartRate_alerts_set: "set (heartRate_alerts g) \<subseteq> {''Abnormal heart rate''}"
  by (cases g) (auto simp: heartRate_alerts_def split: if_splits)

lemma temperature_alerts_set: "set (temperature_alerts g) \<subseteq> {''Abnormal body temperature''}"
  by (cases g) (auto simp: temperature_alerts_def split: if_splits)

lemma oxygenSaturation_alerts_set: "set (oxygenSaturation_alerts g) \<subseteq> {''Low oxygen saturation''}"
  by (cases g) (auto simp: oxygenSaturation_alerts_def split: if_splits)

lemma bloodPressure_alerts_empty:
  "bloodPressure_alerts g = [] \<longleftrightarrow>
     (case g of None \<Rightarrow> True
      | Some bp \<Rightarrow> in_range (systolic bp) 90 140 \<and> in_range (diastolic bp) 60 90)"
  by (cases g)
    (auto simp: bloodPressure_alerts_def js_gt_def js_lt_def in_range_def split: option.splits)

lemma bloodSugar_alerts_empty:
  "bloodSugar_alerts g = [] \<longleftrightarrow>
     (case g of None \<Rightarrow> True
      | Some bs \<Rightarrow> at_most (fasting bs) 126 \<and> at_most (postPrandial bs) 200)"
  by (cases g)
    (auto simp: bloodSugar_alerts_def js_gt_def at_most_def split: option.splits)

lemma heartRate_alerts_empty:
  "heartRate_alerts g = [] \<longleftrightarrow>
     (case g of None \<Rightarrow> True | Some r \<Rightarrow> in_range (reading_value r) 60 100)"
  by (cases g)
    (auto simp: heartRate_alerts_def js_gt_def js_lt_def in_range_def split: option.splits)

lemma temperature_alerts_empty:
  "temperature_alerts g = [] \<longleftrightarrow>
     (case g of None \<Rightarrow> True | Some r \<Rightarrow> in_range (reading_value r) 97 (1004 / 10))"
  by (cases g)
    (auto simp: temperature_alerts_def js_gt_def js_lt_def in_range_def split: option.splits)

lemma oxygenSaturation_alerts_empty:
  "oxygenSaturation_alerts g = [] \<longleftrightarrow>
     (case g of None \<Rightarrow> True | Some r \<Rightarrow> at_least (reading_value r) 95)"
  by (cases g)
    (auto simp: oxygenSaturation_alerts_def js_lt_def at_least_def split: option.splits)

lemma checkNormalRanges_mem:
  "a \<in> set (checkNormalRanges v) \<longleftrightarrow>
     a \<in> set (bloodPressure_alerts (bloodPressure v)) \<or>
     a \<in> set (bloodSugar_alerts (bloodSugar v)) \<or>
     a \<in> set (heartRate_alerts (heartRate v)) \<or>
     a \<in> set (temperature_alerts (temperature v)) \<or>
     a \<in> set (oxygenSaturation_alerts (oxygenSaturation v))"
  by (simp add: checkNormalRanges_def)

lemma checkNormalRanges_high_bp:
  "''High blood pressure detected'' \<in> set (checkNormalRanges v) \<longleftrightarrow>
     (\<exists>bp. bloodPressure v = Some bp \<and> (js_gt (systolic bp) 140 \<or> js_gt (diastolic bp) 90))"
  using bloodSugar_alerts_set [of "bloodSugar v"] heartRate_alerts_set [of "heartRate v"]
    temperature_alerts_set [of "temperature v"]
    oxygenSaturation_alerts_set [of "oxygenSaturation v"]
  by (auto simp: checkNormalRanges_mem bloodPressure_alerts_high)

lemma checkNormalRanges_high_sugar:
  "''High fasting blood sugar'' \<in> set (checkNormalRanges v) \<longleftrightarrow>
     (\<exists>bs. bloodSugar v = Some bs \<and> js_gt (fasting bs) 126)"
  using bloodPressure_alerts_set [of "bloodPressure v"] heartRate_alerts_set [of "heartRate v"]
    temperature_alerts_set [of "temperature v"]
    oxygenSaturation_alerts_set [of "oxygenSaturation v"]
  by (auto simp: checkNormalRanges_mem bloodSugar_alerts_high)

lemma checkNormalRanges_heart_rate:
  "''Abnormal heart rate'' \<in> set (checkNormalRanges v) \<longleftrightarrow>
     (\<exists>r. heartRate v = Some r \<and> (js_gt (reading_value r) 100 \<or> js_lt (reading_value r) 60))"
  using bloodPressure_alerts_set [of "bloodPressure v"] bloodSugar_alerts_set [of "bloodSugar v"]
    temperature_alerts_set [of "temperature v"]
    oxygenSaturation_alerts_set [of "oxygenSaturation v"]
  by (auto simp: checkNormalRanges_mem heartRate_alerts_abnormal)

lemma checkNormalRanges_temperature:
  "''Abnormal body temperature'' \<in> set (checkNormalRanges v) \<longleftrightarrow>
     (\<exists>r. temperature v = Some r \<and>
        (js_gt (reading_value r) (1004 / 10) \<or> js_lt (reading_value r) 97))"
  using bloodPressure_alerts_set [of "bloodPressure v"] bloodSugar_alerts_set [of "bloodSugar v"]
    heartRate_alerts_set [of "heartRate v"]
    oxygenSaturation_alerts_set [of "oxygenSaturation v"]
  by (auto simp: checkNormalRanges_mem temperature_alerts_abnormal)

lemma checkNormalRanges_oxygen:
  "''Low oxygen saturation'' \<in> set (checkNormalRanges v) \<longleftrightarrow>
     (\<exists>r. oxygenSaturation v = Some r \<and> js_lt (reading_value r) 95)"
  using bloodPressure_alerts_set [of "bloodPressure v"] bloodSugar_alerts_set [of "bloodSugar v"]
    heartRate_alerts_set [of "heartRate v"] temperature_alerts_set [of "temperature v"]
  by (auto simp: checkNormalRanges_mem oxygenSaturation_alerts_low)

lemma checkNormalRanges_empty: "checkNormalRanges v = [] \<longleftrightarrow> all_normal v"
  by (simp add: checkNormalRanges_def all_normal_def bloodPressure_alerts_empty
      bloodSugar_alerts_empty heartRate_alerts_empty temperature_alerts_empty
      oxygenSaturation_alerts_empty)

text \<open>
  C10. \<open>checkNormalRanges\<close> is a function of the snapshot alone. A snapshot with no field
  gives the empty list. "High blood pressure detected" is in the result exactly when the
  blood pressure group is present with systolic above 140 or diastolic above 90, and the
  same holds for fasting sugar above 126, heart rate above 100 or below 60, temperature
  above 100.4 or below 97 and oxygen saturation below 95. The result is empty exactly
  when every present value is inside the ranges the method tests.
\<close>

theorem checkNormalRanges_spec:
  "checkNormalRanges no_vitals = [] \<and>
   (''High blood pressure detected'' \<in> set (checkNormalRanges v) \<longleftrightarrow>
      (\<exists>bp. bloodPressure v = Some bp \<and>
         (js_gt (systolic bp) 140 \<or> js_gt (diastolic bp) 90))) \<and>
   (''High fasting blood sugar'' \<in> set (checkNormalRanges v) \<longleftrightarrow>
      (\<exists>bs. bloodSugar v = Some bs \<and> js_gt (fasting bs) 126)) \<and>
   (''Abnormal heart rate'' \<in> set (checkNormalRanges v) \<longleftrightarrow>
      (\<exists>r. heartRate v = Some r \<and>
         (js_gt (reading_value r) 100 \<or> js_lt (reading_value r) 60))) \<and>
   (''Abnormal body temperature'' \<in> set (checkNormalRanges v) \<longleftrightarrow>
      (\<exists>r. temperature v = Some r \<and>
         (js_gt (reading_value r) (1004 / 10) \<or> js_lt (reading_value r) 97))) \<and>
   (''Low oxygen saturation'' \<in> set (checkNormalRanges v) \<longleftrightarrow>
      (\<exists>r. oxygenSaturation v = Some r \<and> js_lt (reading_value r) 95)) \<and>
   (checkNormalRanges v = [] \<longleftrightarrow> all_normal v)"
proof -
  have "checkNormalRanges no_vitals = []"
    by (simp add: checkNormalRanges_empty all_normal_def no_vitals_def)
  then show ?thesis
    by (simp only: checkNormalRanges_high_bp checkNormalRanges_high_sugar
        checkNormalRanges_heart_rate checkNormalRanges_temperature checkNormalRanges_oxygen
        checkNormalRanges_empty simp_thms)
qed

text \<open>
  The theorem at the snapshot of the specification (systolic 150, diastolic 80, nothing
  else recorded) and at a snapshot whose values are all inside the ranges.
\<close>

theorem checkNormalRanges_spec_witness:
  "checkNormalRanges
     \<lparr>bloodPressure = Some \<lparr>systolic = Some 150, diastolic = Some 80\<rparr>, bloodSugar = None,
      heartRate = None, temperature = None, oxygenSaturation = None\<rparr>
     = [''High blood pressure detected''] \<and>
   ''High blood pressure detected'' \<in> set (checkNormalRanges
     \<lparr>bloodPressure = Some \<lparr>systolic = Some 150, diastolic = Some 80\<rparr>, bloodSugar = None,
      heartRate = None, temperature = None, oxygenSaturation = None\<rparr>) \<and>
   all_normal
     \<lparr>bloodPressure = Some \<lparr>systolic = Some 120, diastolic = Some 80\<rparr>,
      bloodSugar = Some \<lparr>fasting = Some 95, postPrandial = Some 140\<rparr>,
      heartRate = Some \<lparr>reading_value = Some 72\<rparr>,
      temperature = Some \<lparr>reading_value = Some (986 / 10)\<rparr>,
      oxygenSaturation = Some \<lparr>reading_value = Some 98\<rparr>\<rparr> \<and>
   checkNormalRanges
     \<lparr>bloodPressure = Some \<lparr>systolic = Some 120, diastolic = Some 80\<rparr>,
      bloodSugar = Some \<lparr>fasting = Some 95, postPrandial = Some 140\<rparr>,
      heartRate = Some \<lparr>reading_value = Some 72\<rparr>,
      temperature = Some \<lparr>reading_value = Some (986 / 10)\<rparr>,
      oxygenSaturation = Some \<lparr>reading_value = Some 98\<rparr>\<rparr> = []"
proof -
  let ?hi = "\<lparr>bloodPressure = Some \<lparr>systolic = Some 150, diastolic = Some 80\<rparr>,
      bloodSugar = None, heartRate = None, temperature = None, oxygenSaturation = None\<rparr>"
  let ?ok = "\<lparr>bloodPressure = Some \<lparr>systolic = Some 120, diastolic = Some 80\<rparr>,
      bloodSugar = Some \<lparr>fasting = Some 95, postPrandial = Some 140\<rparr>,
      heartRate = Some \<lparr>reading_value = Some 72\<rparr>,
      temperature = Some \<lparr>reading_value = Some (986 / 10)\<rparr>,
      oxygenSaturation = Some \<lparr>reading_value = Some 98\<rparr>\<rparr>"
  have a: "checkNormalRanges ?hi = [''High blood pressure detected'']"
    by (simp add: checkNormalRanges_def bloodPressure_alerts_def bloodSugar_alerts_def
        heartRate_alerts_def temperature_alerts_def oxygenSaturation_alerts_def
        js_gt_def js_lt_def)
  have b: "''High blood pressure detected'' \<in> set (checkNormalRanges ?hi)"
    using checkNormalRanges_spec [of ?hi] by (simp add: js_gt_def)
  have c: "all_normal ?ok"
    by (simp add: all_normal_def in_range_def at_most_def at_least_def)
  have d: "checkNormalRanges ?ok = []"
    using checkNormalRanges_spec [of ?ok] c by simp
  from a b c d show ?thesis by simp
qed

section \<open>JSON values and \<open>JSON.parse\<close>\<close>

text \<open>
  The values \<open>JSON.parse\<close> can return. An object keeps its members in insertion order;
  a repeated key overwrites the earlier value in place (\<open>obj_put\<close>), as a JavaScript
  object does. (JavaScript lists integer-like keys first; nothing below depends on the
  order of the keys of a parsed object.)
\<close>

datatype json =
    JNull
  | JBool bool
  | JNum jsnum
  | JStr jsstr
  | JArr "json list"
  | JObj "(jsstr \<times> json) list"

fun obj_put :: "jsstr \<Rightarrow> json \<Rightarrow> (jsstr \<times> json) list \<Rightarrow> (jsstr \<times> json) list" where
  "obj_put k v [] = [(k, v)]"
| "obj_put k v ((k', v') # ms) = (if k = k' then (k, v) # ms else (k', v') # obj_put k v ms)"

definition is_digit :: "code_unit \<Rightarrow> bool" where
  "is_digit c \<longleftrightarrow> 0x30 \<le> c \<and> c \<le> 0x39"

definition is_ws :: "code_unit \<Rightarrow> bool" where
  "is_ws c \<longleftrightarrow> c = 0x20 \<or> c = 0x09 \<or> c = 0x0A \<or> c = 0x0D"

definition unhex :: "code_unit \<Rightarrow> nat option" where
  "unhex c =
     (if 0x30 \<le> c \<and> c \<le> 0x39 then Some (c - 0x30)
      else if 0x61 \<le> c \<and> c \<le> 0x66 then Some (c - 0x57)
      else if 0x41 \<le> c \<and> c \<le> 0x46 then Some (c - 0x37)
      else None)"

fun unhex4 :: "jsstr \<Rightarrow> code_unit option" where
  "unhex4 [a, b, c, d] =
     (case (unhex a, unhex b, unhex c, unhex d) of
        (Some x, Some y, Some z, Some w) \<Rightarrow> Some (4096 * x + 256 * y + 16 * z + w)
      | _ \<Rightarrow> None)"
| "unhex4 _ = None"

definition unescape :: "code_unit \<Rightarrow> code_unit option" where
  "unescape e =
     (if e = 0x22 then Some 0x22
      else if e = 0x5C then Some 0x5C
      else if e = 0x2F then Some 0x2F
      else if e = 0x62 then Some 0x08
      else if e = 0x66 then Some 0x0C
      else if e = 0x6E then Some 0x0A
      else if e = 0x72 then Some 0x0D
      else if e = 0x74 then Some 0x09
      else None)"

definition cons_to :: "code_unit \<Rightarrow> (jsstr \<times> jsstr) option \<Rightarrow> (jsstr \<times> jsstr) option" where
  "cons_to c r = (case r of None \<Rightarrow> None | Some (s, rest) \<Rightarrow> Some (c # s, rest))"

fun lex_string :: "jsstr \<Rightarrow> (jsstr \<times> jsstr) option" where
  "lex_string [] = None"
| "lex_string (c # cs) =
     (if c = 0x22 then Some ([], cs)
      else if c = 0x5C then
        (case cs of
           [] \<Rightarrow> None
         | e # es \<Rightarrow>
             (if e = 0x75 then
                (case unhex4 (take 4 es) of
                   None \<Rightarrow> None
                 | Some u \<Rightarrow> cons_to u (lex_string (drop 4 es)))
              else
                (case unescape e of
                   None \<Rightarrow> None
                 | Some u \<Rightarrow> cons_to u (lex_string es))))
      else if c < 0x20 then None
      else cons_to c (lex_string cs))"

definition digits_value :: "jsstr \<Rightarrow> nat" where
  "digits_value ds = foldl (\<lambda>n c. 10 * n + (c - 0x30)) 0 ds"

text \<open>number: -? (0 | [1-9][0-9]*) (. [0-9]+)? ([eE] [+-]? [0-9]+)?\<close>

definition lex_int :: "jsstr \<Rightarrow> (jsstr \<times> jsstr) option" where
  "lex_int s =
     (case s of
        [] \<Rightarrow> None
      | c # cs \<Rightarrow>
          (if c = 0x30 then Some ([c], cs)
           else if is_digit c then Some (takeWhile is_digit s, dropWhile is_digit s)
           else None))"

definition lex_frac :: "jsstr \<Rightarrow> (jsstr \<times> jsstr) option" where
  "lex_frac s =
     (case s of
        c # cs \<Rightarrow>
          (if c = 0x2E then
             (if takeWhile is_digit cs = [] then None
              else Some (takeWhile is_digit cs, dropWhile is_digit cs))
           else Some ([], s))
      | [] \<Rightarrow> Some ([], s))"

definition lex_sign :: "jsstr \<Rightarrow> bool \<times> jsstr" where
  "lex_sign s =
     (case s of
        c # cs \<Rightarrow> (if c = 0x2D then (True, cs) else if c = 0x2B then (False, cs) else (False, s))
      | [] \<Rightarrow> (False, s))"

definition lex_exp :: "jsstr \<Rightarrow> (int \<times> jsstr) option" where
  "lex_exp s =
     (case s of
        c # cs \<Rightarrow>
          (if c = 0x65 \<or> c = 0x45 then
             (case lex_sign cs of
                (neg, ds) \<Rightarrow>
                  (if takeWhile is_digit ds = [] then None
                   else Some ((if neg then - int (digits_value (takeWhile is_digit ds))
                               else int (digits_value (takeWhile is_digit ds))),
                              dropWhile is_digit ds)))
           else Some (0, s))
      | [] \<Rightarrow> Some (0, s))"

definition scale10 :: "jsnum \<Rightarrow> int \<Rightarrow> jsnum" where
  "scale10 x e = (if 0 \<le> e then x * 10 ^ nat e else x / 10 ^ nat (- e))"

definition lex_number :: "jsstr \<Rightarrow> (jsnum \<times> jsstr) option" where
  "lex_number s =
     (let neg = (case s of c # _ \<Rightarrow> c = 0x2D | [] \<Rightarrow> False);
          s1 = (if neg then tl s else s)
      in case lex_int s1 of
           None \<Rightarrow> None
         | Some (ip, s2) \<Rightarrow>
             (case lex_frac s2 of
                None \<Rightarrow> None
              | Some (fp, s3) \<Rightarrow>
                  (case lex_exp s3 of
                     None \<Rightarrow> None
                   | Some (e, s4) \<Rightarrow>
                       (let m = of_nat (digits_value ip) + of_nat (digits_value fp) / 10 ^ length fp;
                            x = scale10 m e
                        in Some ((if neg then - x else x), s4)))))"

datatype token =
    TLBrace | TRBrace | TLBracket | TRBracket | TColon | TComma
  | TStr jsstr | TNum jsnum | TTrue | TFalse | TNull

lemma cons_to_Some: "cons_to c r = Some (s, rest) \<Longrightarrow> \<exists>s'. r = Some (s', rest)"
  by (auto simp: cons_to_def split: option.splits)

lemma lex_string_length: "lex_string cs = Some (s, r) \<Longrightarrow> length r < length cs"
proof (induction cs arbitrary: s r rule: lex_string.induct)
  case 1
  then show ?case by simp
next
  case (2 c cs)
  show ?case
  proof (cases "c = 0x22")
    case True
    with "2.prems" show ?thesis by simp
  next
    case nq: False
    show ?thesis
    proof (cases "c = 0x5C")
      case True
      with nq "2.prems" obtain e es where cs: "cs = e # es"
        by (cases cs) auto
      show ?thesis
      proof (cases "e = 0x75")
        case u: True
        with True nq cs "2.prems" obtain u' where h: "unhex4 (take 4 es) = Some u'"
          and r: "cons_to u' (lex_string (drop 4 es)) = Some (s, r)"
          by (auto split: option.splits)
        from r obtain s' where "lex_string (drop 4 es) = Some (s', r)"
          using cons_to_Some by blast
        with "2.IH"(1) [OF nq True cs u h] have "length r < length (drop 4 es)" by simp
        with cs show ?thesis by simp
      next
        case nu: False
        with True nq cs "2.prems" obtain u' where h: "unescape e = Some u'"
          and r: "cons_to u' (lex_string es) = Some (s, r)"
          by (auto split: option.splits)
        from r obtain s' where "lex_string es = Some (s', r)"
          using cons_to_Some by blast
        with "2.IH"(2) [OF nq True cs nu h] have "length r < length es" by simp
        with cs show ?thesis by simp
      qed
    next
      case nb: False
      with nq "2.prems" have lt: "\<not> c < 0x20" and r: "cons_to c (lex_string cs) = Some (s, r)"
        by (auto split: if_splits)
      from r obtain s' where "lex_string cs = Some (s', r)"
        using cons_to_Some by blast
      with "2.IH"(3) [OF nq nb lt] show ?thesis by simp
    qed
  qed
qed

lemma lex_int_length: "lex_int s = Some (ds, r) \<Longrightarrow> length r < length s"
  by (cases s) (auto simp: lex_int_def length_dropWhile_le le_imp_less_Suc split: if_splits)

lemma lex_frac_length: "lex_frac s = Some (ds, r) \<Longrightarrow> length r \<le> length s"
  by (cases s) (auto simp: lex_frac_def length_dropWhile_le le_SucI split: if_splits)

lemma lex_sign_length: "lex_sign s = (b, r) \<Longrightarrow> length r \<le> length s"
  by (cases s) (auto simp: lex_sign_def split: if_splits)

lemma lex_exp_length: "lex_exp s = Some (e, r) \<Longrightarrow> length r \<le> length s"
proof (cases s)
  case Nil
  assume "lex_exp s = Some (e, r)"
  with Nil show ?thesis by (simp add: lex_exp_def)
next
  case (Cons c cs)
  assume a: "lex_exp s = Some (e, r)"
  show ?thesis
  proof (cases "c = 0x65 \<or> c = 0x45")
    case False
    with a Cons show ?thesis by (simp add: lex_exp_def)
  next
    case True
    obtain neg ds where sg: "lex_sign cs = (neg, ds)" by (cases "lex_sign cs")
    with a Cons True have "r = dropWhile is_digit ds"
      by (auto simp: lex_exp_def split: if_splits)
    moreover have "length (dropWhile is_digit ds) \<le> length ds" by (rule length_dropWhile_le)
    moreover from sg have "length ds \<le> length cs" by (rule lex_sign_length)
    ultimately show ?thesis using Cons by simp
  qed
qed

lemma lex_number_length: "lex_number s = Some (x, r) \<Longrightarrow> length r < length s"
proof -
  assume a: "lex_number s = Some (x, r)"
  define s1 where "s1 = (if (case s of c # _ \<Rightarrow> c = 0x2D | [] \<Rightarrow> False) then tl s else s)"
  have s1: "length s1 \<le> length s" by (simp add: s1_def)
  from a obtain ip s2 fp s3 e where i: "lex_int s1 = Some (ip, s2)"
    and f: "lex_frac s2 = Some (fp, s3)" and x: "lex_exp s3 = Some (e, r)"
    by (auto simp: lex_number_def Let_def s1_def split: option.splits)
  from i have "length s2 < length s1" by (rule lex_int_length)
  moreover from f have "length s3 \<le> length s2" by (rule lex_frac_length)
  moreover from x have "length r \<le> length s3" by (rule lex_exp_length)
  ultimately show ?thesis using s1 by simp
qed

definition tok :: "token \<Rightarrow> token list option \<Rightarrow> token list option" where
  "tok t r = (case r of None \<Rightarrow> None | Some ts \<Rightarrow> Some (t # ts))"

function lex :: "jsstr \<Rightarrow> token list option" where
  "lex [] = Some []"
| "lex (c # cs) =
     (if is_ws c then lex cs
      else if c = 0x7B then tok TLBrace (lex cs)
      else if c = 0x7D then tok TRBrace (lex cs)
      else if c = 0x5B then tok TLBracket (lex cs)
      else if c = 0x5D then tok TRBracket (lex cs)
      else if c = 0x3A then tok TColon (lex cs)
      else if c = 0x2C then tok TComma (lex cs)
      else if c = 0x22 then
        (case lex_string cs of
           None \<Rightarrow> None
         | Some (s, r) \<Rightarrow> tok (TStr s) (lex r))
      else if c = 0x2D \<or> is_digit c then
        (case lex_number (c # cs) of
           None \<Rightarrow> None
         | Some (x, r) \<Rightarrow> tok (TNum x) (lex r))
      else if c = 0x74 \<and> take 3 cs = [0x72, 0x75, 0x65] then tok TTrue (lex (drop 3 cs))
      else if c = 0x66 \<and> take 4 cs = [0x61, 0x6C, 0x73, 0x65] then tok TFalse (lex (drop 4 cs))
      else if c = 0x6E \<and> take 3 cs = [0x75, 0x6C, 0x6C] then tok TNull (lex (drop 3 cs))
      else None)"
  by pat_completeness auto
termination
proof (relation "measure length")
  fix c cs x s r
  assume "lex_string cs = Some x" and "(s, r) = x"
  then have "lex_string cs = Some (s, r)" by simp
  then have "length r < length cs" by (rule lex_string_length)
  then show "(r, c # cs) \<in> measure length" by simp
next
  fix c cs x y r
  assume "lex_number (c # cs) = Some x" and "(y, r) = x"
  then have "lex_number (c # cs) = Some (y, r)" by simp
  then have "length r < length (c # cs)" by (rule lex_number_length)
  then show "(r, c # cs) \<in> measure length" by simp
qed auto

datatype frame =
    FArr "json list"
  | FObj "(jsstr \<times> json) list" "jsstr option"

datatype pmode = PValue | PValueOrClose | PKeyOrClose | PKey | PColon | PAfter | PDone json

fun deliver :: "json \<Rightarrow> frame list \<Rightarrow> (pmode \<times> frame list) option" where
  "deliver v [] = Some (PDone v, [])"
| "deliver v (FArr es # st) = Some (PAfter, FArr (es @ [v]) # st)"
| "deliver v (FObj ms (Some k) # st) = Some (PAfter, FObj (obj_put k v ms) None # st)"
| "deliver v (FObj ms None # st) = None"

fun close_array :: "frame list \<Rightarrow> (pmode \<times> frame list) option" where
  "close_array (FArr es # st) = deliver (JArr es) st"
| "close_array _ = None"

fun close_object :: "frame list \<Rightarrow> (pmode \<times> frame list) option" where
  "close_object (FObj ms None # st) = deliver (JObj ms) st"
| "close_object _ = None"

fun open_key :: "jsstr \<Rightarrow> frame list \<Rightarrow> (pmode \<times> frame list) option" where
  "open_key k (FObj ms None # st) = Some (PColon, FObj ms (Some k) # st)"
| "open_key k _ = None"

fun start_value :: "token \<Rightarrow> frame list \<Rightarrow> (pmode \<times> frame list) option" where
  "start_value TLBrace st = Some (PKeyOrClose, FObj [] None # st)"
| "start_value TLBracket st = Some (PValueOrClose, FArr [] # st)"
| "start_value (TStr s) st = deliver (JStr s) st"
| "start_value (TNum x) st = deliver (JNum x) st"
| "start_value TTrue st = deliver (JBool True) st"
| "start_value TFalse st = deliver (JBool False) st"
| "start_value TNull st = deliver JNull st"
| "start_value _ st = None"

fun after_value :: "token \<Rightarrow> frame list \<Rightarrow> (pmode \<times> frame list) option" where
  "after_value TComma (FArr es # st) = Some (PValue, FArr es # st)"
| "after_value TRBracket (FArr es # st) = deliver (JArr es) st"
| "after_value TComma (FObj ms None # st) = Some (PKey, FObj ms None # st)"
| "after_value TRBrace (FObj ms None # st) = deliver (JObj ms) st"
| "after_value _ _ = None"

fun pstep :: "pmode \<Rightarrow> frame list \<Rightarrow> token \<Rightarrow> (pmode \<times> frame list) option" where
  "pstep PValue st t = start_value t st"
| "pstep PValueOrClose st t = (if t = TRBracket then close_array st else start_value t st)"
| "pstep PKeyOrClose st t =
     (case t of TRBrace \<Rightarrow> close_object st | TStr k \<Rightarrow> open_key k st | _ \<Rightarrow> None)"
| "pstep PKey st t = (case t of TStr k \<Rightarrow> open_key k st | _ \<Rightarrow> None)"
| "pstep PColon st t = (if t = TColon then Some (PValue, st) else None)"
| "pstep PAfter st t = after_value t st"
| "pstep (PDone v) st t = None"

fun parse_tokens :: "pmode \<Rightarrow> frame list \<Rightarrow> token list \<Rightarrow> json option" where
  "parse_tokens m st [] = (case m of PDone v \<Rightarrow> Some v | _ \<Rightarrow> None)"
| "parse_tokens m st (t # ts) =
     (case pstep m st t of
        None \<Rightarrow> None
      | Some (m', st') \<Rightarrow> parse_tokens m' st' ts)"

definition JSON_parse :: "jsstr \<Rightarrow> json option" where
  "JSON_parse text = (case lex text of None \<Rightarrow> None | Some ts \<Rightarrow> parse_tokens PValue [] ts)"

definition jsonMatch :: "jsstr \<Rightarrow> jsstr option" where
  "jsonMatch text =
     (case dropWhile (\<lambda>c. c \<noteq> 0x7B) text of
        [] \<Rightarrow> None
      | c0 # body \<Rightarrow>
          (if 0x7D \<in> set body
           then Some (c0 # rev (dropWhile (\<lambda>c. c \<noteq> 0x7D) (rev body)))
           else None))"

definition hexdigit :: "nat \<Rightarrow> code_unit" where
  "hexdigit n = (if n < 10 then 0x30 + n else 0x57 + n)"

definition unicode_escape :: "code_unit \<Rightarrow> jsstr" where
  "unicode_escape c =
     [0x5C, 0x75, hexdigit (c div 4096 mod 16), hexdigit (c div 256 mod 16),
      hexdigit (c div 16 mod 16), hexdigit (c mod 16)]"

definition is_leading_surrogate :: "code_unit \<Rightarrow> bool" where
  "is_leading_surrogate c \<longleftrightarrow> 0xD800 \<le> c \<and> c \<le> 0xDBFF"

definition is_trailing_surrogate :: "code_unit \<Rightarrow> bool" where
  "is_trailing_surrogate c \<longleftrightarrow> 0xDC00 \<le> c \<and> c \<le> 0xDFFF"

definition quote_unit :: "code_unit \<Rightarrow> jsstr" where
  "quote_unit c =
     (if c = 0x08 then [0x5C, 0x62]
      else if c = 0x09 then [0x5C, 0x74]
      else if c = 0x0A then [0x5C, 0x6E]
      else if c = 0x0C then [0x5C, 0x66]
      else if c = 0x0D then [0x5C, 0x72]
      else if c = 0x22 then [0x5C, 0x22]
      else if c = 0x5C then [0x5C, 0x5C]
      else if c < 0x20 \<or> is_leading_surrogate c \<or> is_trailing_surrogate c
        then unicode_escape c
      else [c])"

fun quote_units :: "jsstr \<Rightarrow> jsstr" where
  "quote_units [] = []"
| "quote_units [c] = quote_unit c"
| "quote_units (c # d # cs) =
     (if is_leading_surrogate c \<and> is_trailing_surrogate d then c # d # quote_units cs
      else quote_unit c @ quote_units (d # cs))"

definition QuoteJSONString :: "jsstr \<Rightarrow> jsstr" where
  "QuoteJSONString s = 0x22 # quote_units s @ [0x22]"

fun digits_of :: "nat \<Rightarrow> jsstr" where
  "digits_of n = (if n < 10 then [0x30 + n] else digits_of (n div 10) @ [0x30 + n mod 10])"

declare digits_of.simps [simp del]

definition Number_toString :: "jsnum \<Rightarrow> jsstr option" where
  "Number_toString x =
     (let n = \<lfloor>x\<rfloor>
      in if of_int n = x \<and> \<bar>n\<bar> < 10 ^ 21
         then Some ((if n < 0 then [0x2D] else []) @ digits_of (nat \<bar>n\<bar>))
         else None)"

fun join_comma :: "jsstr list \<Rightarrow> jsstr" where
  "join_comma [] = []"
| "join_comma [s] = s"
| "join_comma (s # t # ss) = s @ 0x2C # join_comma (t # ss)"

fun those_all :: "'a option list \<Rightarrow> 'a list option" where
  "those_all [] = Some []"
| "those_all (None # xs) = None"
| "those_all (Some x # xs) = (case those_all xs of None \<Rightarrow> None | Some ys \<Rightarrow> Some (x # ys))"

fun JSON_stringify :: "json \<Rightarrow> jsstr option" where
  "JSON_stringify JNull = Some [0x6E, 0x75, 0x6C, 0x6C]"
| "JSON_stringify (JBool b) =
     Some (if b then [0x74, 0x72, 0x75, 0x65] else [0x66, 0x61, 0x6C, 0x73, 0x65])"
| "JSON_stringify (JNum x) = Number_toString x"
| "JSON_stringify (JStr s) = Some (QuoteJSONString s)"
| "JSON_stringify (JArr vs) =
     (case those_all (map JSON_stringify vs) of
        None \<Rightarrow> None
      | Some parts \<Rightarrow> Some (0x5B # join_comma parts @ [0x5D]))"
| "JSON_stringify (JObj ms) =
     (case those_all (map (\<lambda>m. case JSON_stringify (snd m) of
                                   None \<Rightarrow> None
                                 | Some s \<Rightarrow> Some (QuoteJSONString (fst m) @ 0x3A # s)) ms) of
        None \<Rightarrow> None
      | Some parts \<Rightarrow> Some (0x7B # join_comma parts @ [0x7D]))"

declare lex_string.simps [simp del]
declare lex.simps [simp del]


lemma unhex_hexdigit: "n < 16 \<Longrightarrow> unhex (hexdigit n) = Some n"
  by (auto simp: unhex_def hexdigit_def)

lemma hex_digits_value:
  assumes "c < 65536"
  shows "4096 * (c div 4096 mod 16) + 256 * (c div 256 mod 16) + 16 * (c div 16 mod 16)
           + c mod 16 = (c::nat)"
proof -
  have a: "c mod 256 = 16 * (c div 16 mod 16) + c mod 16"
    using mod_mult2_eq [of c 16 16] by simp
  have b: "c mod 4096 = 256 * (c div 256 mod 16) + c mod 256"
    using mod_mult2_eq [of c 256 16] by simp
  have d: "c mod 65536 = 4096 * (c div 4096 mod 16) + c mod 4096"
    using mod_mult2_eq [of c 4096 16] by simp
  from assms have "c mod 65536 = c" by simp
  with a b d show ?thesis by simp
qed

lemma unhex4_hexdigits:
  assumes "a < 16" "b < 16" "c < 16" "d < 16"
  shows "unhex4 [hexdigit a, hexdigit b, hexdigit c, hexdigit d]
           = Some (4096 * a + 256 * b + 16 * c + d)"
  by (simp add: unhex_hexdigit assms)

lemma lex_string_unicode_escape:
  assumes "c < 65536"
  shows "lex_string (unicode_escape c @ r) = cons_to c (lex_string r)"
proof -
  define x y z w where "x = c div 4096 mod 16" and "y = c div 256 mod 16"
    and "z = c div 16 mod 16" and "w = c mod 16"
  have lt: "x < 16" "y < 16" "z < 16" "w < 16"
    by (simp_all add: x_def y_def z_def w_def)
  have v: "4096 * x + 256 * y + 16 * z + w = c"
    unfolding x_def y_def z_def w_def by (rule hex_digits_value [OF assms])
  have e: "unicode_escape c = [0x5C, 0x75, hexdigit x, hexdigit y, hexdigit z, hexdigit w]"
    by (simp only: unicode_escape_def x_def y_def z_def w_def)
  have "unhex4 [hexdigit x, hexdigit y, hexdigit z, hexdigit w] = Some c"
    using unhex4_hexdigits [OF lt] v by simp
  then show ?thesis
    unfolding e by (simp add: lex_string.simps)
qed

lemma lex_string_quote_unit: "lex_string (quote_unit c @ r) = cons_to c (lex_string r)"
proof -
  consider (short) "c \<in> {0x08, 0x09, 0x0A, 0x0C, 0x0D, 0x22, 0x5C}"
    | (uni) "c \<notin> {0x08, 0x09, 0x0A, 0x0C, 0x0D, 0x22, 0x5C}"
        "c < 0x20 \<or> is_leading_surrogate c \<or> is_trailing_surrogate c"
    | (plain) "c \<notin> {0x08, 0x09, 0x0A, 0x0C, 0x0D, 0x22, 0x5C}"
        "\<not> (c < 0x20 \<or> is_leading_surrogate c \<or> is_trailing_surrogate c)"
    by blast
  then show ?thesis
  proof cases
    case short
    then show ?thesis by (auto simp: quote_unit_def unescape_def lex_string.simps)
  next
    case uni
    then have "c < 65536"
      by (auto simp: is_leading_surrogate_def is_trailing_surrogate_def)
    then have "lex_string (unicode_escape c @ r) = cons_to c (lex_string r)"
      by (rule lex_string_unicode_escape)
    with uni show ?thesis by (simp add: quote_unit_def)
  next
    case plain
    then show ?thesis by (simp add: quote_unit_def lex_string.simps)
  qed
qed

lemma lex_string_surrogate:
  "is_leading_surrogate c \<or> is_trailing_surrogate c \<Longrightarrow>
     lex_string (c # r) = cons_to c (lex_string r)"
  by (auto simp: is_leading_surrogate_def is_trailing_surrogate_def lex_string.simps)

lemma lex_string_quote_units:
  "lex_string (quote_units s @ 0x22 # r) = Some (s, r)"
proof (induction s rule: quote_units.induct)
  case 1
  show ?case by (simp add: lex_string.simps)
next
  case (2 c)
  have "lex_string (quote_unit c @ 0x22 # r) = cons_to c (lex_string (0x22 # r))"
    by (rule lex_string_quote_unit)
  then show ?case by (simp add: cons_to_def lex_string.simps)
next
  case (3 c d cs)
  show ?case
  proof (cases "is_leading_surrogate c \<and> is_trailing_surrogate d")
    case True
    have "lex_string (c # d # quote_units cs @ 0x22 # r)
        = cons_to c (lex_string (d # quote_units cs @ 0x22 # r))"
      by (rule lex_string_surrogate) (simp add: True)
    also have "lex_string (d # quote_units cs @ 0x22 # r)
        = cons_to d (lex_string (quote_units cs @ 0x22 # r))"
      by (rule lex_string_surrogate) (simp add: True)
    finally show ?thesis using True "3.IH"(1) by (simp add: cons_to_def)
  next
    case False
    have "lex_string (quote_unit c @ quote_units (d # cs) @ 0x22 # r)
        = cons_to c (lex_string (quote_units (d # cs) @ 0x22 # r))"
      by (rule lex_string_quote_unit)
    moreover have "quote_units (c # d # cs) = quote_unit c @ quote_units (d # cs)"
      by (simp only: quote_units.simps False if_False)
    ultimately show ?thesis using "3.IH"(2) [OF False] by (simp add: cons_to_def)
  qed
qed

lemma jsonMatch_braces: "jsonMatch (0x7B # xs @ [0x7D]) = Some (0x7B # xs @ [0x7D])"
  by (simp add: jsonMatch_def)


subsection \<open>Printing and reading back\<close>

definition num_str :: "int \<Rightarrow> jsstr" where
  "num_str n = (if n < 0 then [0x2D] else []) @ digits_of (nat \<bar>n\<bar>)"

fun printable :: "json \<Rightarrow> bool" where
  "printable JNull = True"
| "printable (JBool b) = True"
| "printable (JNum x) = (of_int \<lfloor>x\<rfloor> = x \<and> \<bar>\<lfloor>x\<rfloor>\<bar> < 10 ^ 21)"
| "printable (JStr s) = True"
| "printable (JArr vs) = list_all printable vs"
| "printable (JObj ms) = (distinct (map fst ms) \<and> list_all (\<lambda>m. printable (snd m)) ms)"

fun str :: "json \<Rightarrow> jsstr" where
  "str JNull = [0x6E, 0x75, 0x6C, 0x6C]"
| "str (JBool b) = (if b then [0x74, 0x72, 0x75, 0x65] else [0x66, 0x61, 0x6C, 0x73, 0x65])"
| "str (JNum x) = num_str \<lfloor>x\<rfloor>"
| "str (JStr s) = QuoteJSONString s"
| "str (JArr vs) = 0x5B # join_comma (map str vs) @ [0x5D]"
| "str (JObj ms) =
     0x7B # join_comma (map (\<lambda>m. QuoteJSONString (fst m) @ 0x3A # str (snd m)) ms) @ [0x7D]"

fun join_tok :: "token list list \<Rightarrow> token list" where
  "join_tok [] = []"
| "join_tok [s] = s"
| "join_tok (s # t # ss) = s @ TComma # join_tok (t # ss)"

fun toks :: "json \<Rightarrow> token list" where
  "toks JNull = [TNull]"
| "toks (JBool b) = [if b then TTrue else TFalse]"
| "toks (JNum x) = [TNum x]"
| "toks (JStr s) = [TStr s]"
| "toks (JArr vs) = TLBracket # join_tok (map toks vs) @ [TRBracket]"
| "toks (JObj ms) =
     TLBrace # join_tok (map (\<lambda>m. TStr (fst m) # TColon # toks (snd m)) ms) @ [TRBrace]"

definition delim :: "jsstr \<Rightarrow> bool" where
  "delim r = (case r of [] \<Rightarrow> True | c # _ \<Rightarrow> c = 0x2C \<or> c = 0x5D \<or> c = 0x7D)"

lemma those_all_map:
  "(\<And>x. x \<in> set xs \<Longrightarrow> f x = Some (g x)) \<Longrightarrow> those_all (map f xs) = Some (map g xs)"
  by (induction xs) simp_all

lemma JSON_stringify_str: "printable v \<Longrightarrow> JSON_stringify v = Some (str v)"
proof (induction v)
  case (JNum x)
  then show ?case by (simp add: Number_toString_def num_str_def Let_def)
next
  case (JArr vs)
  then have "those_all (map JSON_stringify vs) = Some (map str vs)"
    by (intro those_all_map) (simp add: list_all_iff)
  then show ?case by simp
next
  case (JObj ms)
  have "those_all (map (\<lambda>m. case JSON_stringify (snd m) of None \<Rightarrow> None
            | Some s \<Rightarrow> Some (QuoteJSONString (fst m) @ 0x3A # s)) ms)
        = Some (map (\<lambda>m. QuoteJSONString (fst m) @ 0x3A # str (snd m)) ms)"
  proof (rule those_all_map)
    fix m assume m: "m \<in> set ms"
    obtain k v where kv: "m = (k, v)" by (cases m)
    with m JObj.prems have "printable v" by (auto simp: list_all_iff)
    moreover from m kv have "v \<in> Basic_BNFs.snds m" by simp
    ultimately have "JSON_stringify v = Some (str v)" using JObj.IH m by blast
    with kv show "(case JSON_stringify (snd m) of None \<Rightarrow> None
            | Some s \<Rightarrow> Some (QuoteJSONString (fst m) @ 0x3A # s))
        = Some (QuoteJSONString (fst m) @ 0x3A # str (snd m))" by simp
  qed
  then show ?case by simp
qed simp_all

lemma digits_of_digits: "list_all is_digit (digits_of n) \<and> digits_of n \<noteq> []"
proof (induction n rule: digits_of.induct)
  case (1 n)
  show ?case
  proof (cases "n < 10")
    case True
    then show ?thesis by (simp add: digits_of.simps [of n] is_digit_def)
  next
    case False
    have "n mod 10 < 10" by simp
    then have "is_digit (0x30 + n mod 10)" unfolding is_digit_def by linarith
    with False 1 show ?thesis by (simp add: digits_of.simps [of n])
  qed
qed

lemma digits_value_Nil: "digits_value [] = 0"
  by (simp add: digits_value_def)

lemma digits_value_snoc: "digits_value (ds @ [d]) = 10 * digits_value ds + (d - 0x30)"
  by (simp add: digits_value_def)

lemma digits_value_digits_of: "digits_value (digits_of n) = n"
proof (induction n rule: digits_of.induct)
  case (1 n)
  show ?case
  proof (cases "n < 10")
    case True
    then show ?thesis by (simp add: digits_of.simps [of n] digits_value_def)
  next
    case False
    with 1 have "digits_value (digits_of (n div 10)) = n div 10" by simp
    with False show ?thesis by (simp add: digits_of.simps [of n] digits_value_snoc)
  qed
qed

lemma hd_digits_of: "0 < n \<Longrightarrow> hd (digits_of n) \<noteq> 0x30"
proof (induction n rule: digits_of.induct)
  case (1 n)
  show ?case
  proof (cases "n < 10")
    case True
    with 1(2) show ?thesis by (simp add: digits_of.simps [of n])
  next
    case False
    then have "0 < n div 10" by simp
    with 1(1) False have "hd (digits_of (n div 10)) \<noteq> 0x30" by simp
    moreover have "digits_of (n div 10) \<noteq> []" using digits_of_digits by blast
    ultimately show ?thesis using False by (simp add: digits_of.simps [of n])
  qed
qed

lemma takeWhile_prefix:
  "list_all P ds \<Longrightarrow> (case r of [] \<Rightarrow> True | c # _ \<Rightarrow> \<not> P c) \<Longrightarrow>
     takeWhile P (ds @ r) = ds \<and> dropWhile P (ds @ r) = r"
  by (induction ds) (auto split: list.splits)

lemma delim_not_digit: "delim r \<Longrightarrow> (case r of [] \<Rightarrow> True | c # _ \<Rightarrow> \<not> is_digit c)"
  by (auto simp: delim_def is_digit_def split: list.splits)

lemma lex_int_digits_of:
  assumes "delim r"
  shows "lex_int (digits_of n @ r) = Some (digits_of n, r)"
proof (cases "n = 0")
  case True
  then show ?thesis by (simp add: digits_of.simps [of 0] lex_int_def)
next
  case False
  obtain c cs where ds: "digits_of n = c # cs"
    using digits_of_digits [of n] by (cases "digits_of n") auto
  from False have "hd (digits_of n) \<noteq> 0x30" by (intro hd_digits_of) simp
  with ds have c0: "c \<noteq> 0x30" by simp
  from ds digits_of_digits [of n] have cd: "is_digit c" by simp
  have "takeWhile is_digit (digits_of n @ r) = digits_of n
      \<and> dropWhile is_digit (digits_of n @ r) = r"
    using digits_of_digits [of n] delim_not_digit [OF assms] by (intro takeWhile_prefix) simp_all
  with ds c0 cd show ?thesis by (simp add: lex_int_def)
qed

lemma lex_frac_delim: "delim r \<Longrightarrow> lex_frac r = Some ([], r)"
  by (auto simp: delim_def lex_frac_def split: list.splits)

lemma lex_exp_delim: "delim r \<Longrightarrow> lex_exp r = Some (0, r)"
  by (auto simp: delim_def lex_exp_def split: list.splits)

lemma lex_number_num_str:
  assumes "delim r"
  shows "lex_number (num_str n @ r) = Some (of_int n, r)"
proof (cases "n < 0")
  case True
  obtain c cs where ds: "digits_of (nat \<bar>n\<bar>) = c # cs"
    using digits_of_digits [of "nat \<bar>n\<bar>"] by (cases "digits_of (nat \<bar>n\<bar>)") auto
  have "lex_number (0x2D # digits_of (nat \<bar>n\<bar>) @ r) = Some (- of_nat (nat \<bar>n\<bar>), r)"
    by (simp add: lex_number_def lex_int_digits_of [OF assms] lex_frac_delim [OF assms]
        lex_exp_delim [OF assms] digits_value_digits_of digits_value_Nil scale10_def)
  with True show ?thesis by (simp add: num_str_def)
next
  case False
  obtain c cs where ds: "digits_of (nat \<bar>n\<bar>) = c # cs"
    using digits_of_digits [of "nat \<bar>n\<bar>"] by (cases "digits_of (nat \<bar>n\<bar>)") auto
  with digits_of_digits [of "nat \<bar>n\<bar>"] have "is_digit c" by simp
  then have c: "c \<noteq> 0x2D" by (auto simp: is_digit_def)
  have "lex_int (digits_of (nat \<bar>n\<bar>) @ r) = Some (digits_of (nat \<bar>n\<bar>), r)"
    by (rule lex_int_digits_of [OF assms])
  with ds have "lex_int (c # cs @ r) = Some (c # cs, r)" by simp
  with c have "lex_number (c # cs @ r) = Some (of_nat (digits_value (c # cs)), r)"
    by (simp add: lex_number_def lex_frac_delim [OF assms]
        lex_exp_delim [OF assms] scale10_def digits_value_Nil)
  moreover have "digits_value (c # cs) = nat \<bar>n\<bar>"
    using digits_value_digits_of [of "nat \<bar>n\<bar>"] ds by simp
  ultimately show ?thesis using False ds by (simp add: num_str_def)
qed


definition emit :: "token list \<Rightarrow> token list option \<Rightarrow> token list option" where
  "emit ts r = (case r of None \<Rightarrow> None | Some us \<Rightarrow> Some (ts @ us))"

lemma tok_emit: "tok t r = emit [t] r"
  by (cases r) (simp_all add: tok_def emit_def)

lemma emit_emit: "emit a (emit b r) = emit (a @ b) r"
  by (cases r) (simp_all add: emit_def)

lemma emit_Nil: "emit [] r = r"
  by (cases r) (simp_all add: emit_def)

lemma lex_num_str:
  assumes "delim r"
  shows "lex (num_str n @ r) = emit [TNum (of_int n)] (lex r)"
proof -
  obtain c cs where s: "num_str n = c # cs" and c: "c = 0x2D \<or> is_digit c"
  proof (cases "n < 0")
    case True
    then have "num_str n = 0x2D # digits_of (nat \<bar>n\<bar>)" by (simp add: num_str_def)
    then show ?thesis using that by blast
  next
    case False
    obtain d ds where ds: "digits_of (nat \<bar>n\<bar>) = d # ds"
      using digits_of_digits [of "nat \<bar>n\<bar>"] by (cases "digits_of (nat \<bar>n\<bar>)") auto
    with digits_of_digits [of "nat \<bar>n\<bar>"] have "is_digit d" by simp
    moreover from False ds have "num_str n = d # ds" by (simp add: num_str_def)
    ultimately show ?thesis using that by blast
  qed
  from c have nws: "\<not> is_ws c" "c \<noteq> 0x7B" "c \<noteq> 0x7D" "c \<noteq> 0x5B" "c \<noteq> 0x5D"
    "c \<noteq> 0x3A" "c \<noteq> 0x2C" "c \<noteq> 0x22"
    by (auto simp: is_ws_def is_digit_def)
  have "lex_number (c # cs @ r) = Some (of_int n, r)"
    using lex_number_num_str [OF assms, of n] s by simp
  with nws c have "lex (c # cs @ r) = tok (TNum (of_int n)) (lex r)"
    by (simp add: lex.simps)
  with s show ?thesis by (simp add: tok_emit)
qed

lemma lex_QuoteJSONString: "lex (QuoteJSONString s @ r) = emit [TStr s] (lex r)"
proof -
  have "lex (0x22 # quote_units s @ 0x22 # r) = tok (TStr s) (lex r)"
    by (simp add: lex.simps is_ws_def lex_string_quote_units)
  then show ?thesis by (simp add: QuoteJSONString_def tok_emit)
qed

lemma lex_punct:
  "lex (0x2C # r) = emit [TComma] (lex r)"
  "lex (0x3A # r) = emit [TColon] (lex r)"
  "lex (0x5B # r) = emit [TLBracket] (lex r)"
  "lex (0x5D # r) = emit [TRBracket] (lex r)"
  "lex (0x7B # r) = emit [TLBrace] (lex r)"
  "lex (0x7D # r) = emit [TRBrace] (lex r)"
  by (simp_all add: lex.simps is_ws_def tok_emit)

lemma lex_join:
  assumes elem: "\<And>x r. x \<in> set xs \<Longrightarrow> delim r \<Longrightarrow> lex (f x @ r) = emit (g x) (lex r)"
    and closer: "c = 0x5D \<or> c = 0x7D"
  shows "lex (join_comma (map f xs) @ c # r) = emit (join_tok (map g xs)) (lex (c # r))"
  using elem
proof (induction xs rule: induct_list012)
  case 1
  show ?case by (simp add: emit_Nil)
next
  case (2 x)
  have "delim (c # r)" using closer by (auto simp: delim_def)
  with 2 show ?case by simp
next
  case (3 x y zs)
  have d: "delim (0x2C # join_comma (map f (y # zs)) @ c # r)" by (simp add: delim_def)
  have "lex (f x @ 0x2C # join_comma (map f (y # zs)) @ c # r)
      = emit (g x) (lex (0x2C # join_comma (map f (y # zs)) @ c # r))"
    using "3.prems" [OF _ d, of x] by simp
  also have "lex (0x2C # join_comma (map f (y # zs)) @ c # r)
      = emit [TComma] (lex (join_comma (map f (y # zs)) @ c # r))"
    by (rule lex_punct)
  also have "lex (join_comma (map f (y # zs)) @ c # r)
      = emit (join_tok (map g (y # zs))) (lex (c # r))"
    using "3.IH"(2) "3.prems" by simp
  finally show ?case by (simp add: emit_emit)
qed

lemma lex_str: "printable v \<Longrightarrow> delim r \<Longrightarrow> lex (str v @ r) = emit (toks v) (lex r)"
proof (induction v arbitrary: r)
  case JNull
  show ?case by (simp add: lex.simps is_ws_def is_digit_def tok_emit)
next
  case (JBool b)
  show ?case by (cases b) (simp_all add: lex.simps is_ws_def is_digit_def tok_emit)
next
  case (JNum x)
  then have "of_int \<lfloor>x\<rfloor> = x" by simp
  with lex_num_str [OF JNum.prems(2), of "\<lfloor>x\<rfloor>"] show ?case by simp
next
  case (JStr s)
  show ?case by (simp add: lex_QuoteJSONString)
next
  case (JArr vs)
  have "lex (join_comma (map str vs) @ 0x5D # r)
      = emit (join_tok (map toks vs)) (lex (0x5D # r))"
  proof (rule lex_join)
    fix x r' assume "x \<in> set vs" "delim r'"
    with JArr.IH JArr.prems(1) show "lex (str x @ r') = emit (toks x) (lex r')"
      by (simp add: list_all_iff)
  qed simp
  then show ?case by (simp add: lex_punct emit_emit)
next
  case (JObj ms)
  let ?f = "\<lambda>m. QuoteJSONString (fst m) @ 0x3A # str (snd m)"
  let ?g = "\<lambda>m. TStr (fst m) # TColon # toks (snd m)"
  have "lex (join_comma (map ?f ms) @ 0x7D # r)
      = emit (join_tok (map ?g ms)) (lex (0x7D # r))"
  proof (rule lex_join)
    fix m r' assume m: "m \<in> set ms" and d: "delim r'"
    obtain k v where kv: "m = (k, v)" by (cases m)
    with m JObj.prems(1) have "printable v" by (auto simp: list_all_iff)
    moreover from kv have "v \<in> Basic_BNFs.snds m" by simp
    ultimately have "lex (str v @ r') = emit (toks v) (lex r')"
      using JObj.IH m d by blast
    with kv show "lex (?f m @ r') = emit (?g m) (lex r')"
      by (simp add: lex_QuoteJSONString lex_punct emit_emit)
  qed simp
  then show ?case by (simp add: lex_punct emit_emit)
qed

lemma lex_str_all: "printable v \<Longrightarrow> lex (str v) = Some (toks v)"
  using lex_str [of v "[]"] by (simp add: delim_def lex.simps emit_def)


definition continue_with :: "(pmode \<times> frame list) option \<Rightarrow> token list \<Rightarrow> json option" where
  "continue_with s ts = (case s of None \<Rightarrow> None | Some (m, st) \<Rightarrow> parse_tokens m st ts)"

lemma parse_tokens_Cons: "parse_tokens m st (t # ts) = continue_with (pstep m st t) ts"
  by (simp add: continue_with_def)

declare parse_tokens.simps [simp del]

lemma continue_with_Some: "continue_with (Some (m, st)) ts = parse_tokens m st ts"
  by (simp add: continue_with_def)

lemma obj_put_fresh: "k \<notin> fst ` set ms \<Longrightarrow> obj_put k v ms = ms @ [(k, v)]"
  by (induction ms) auto

lemma parse_elems:
  assumes elem: "\<And>x m st ts. x \<in> set vs \<Longrightarrow> m = PValue \<or> m = PValueOrClose \<Longrightarrow>
      parse_tokens m st (toks x @ ts) = continue_with (deliver x st) ts"
    and ne: "vs \<noteq> []"
    and m: "m = PValue \<or> m = PValueOrClose"
  shows "parse_tokens m (FArr es # st) (join_tok (map toks vs) @ TRBracket # ts)
           = continue_with (deliver (JArr (es @ vs)) st) ts"
  using elem ne m
proof (induction vs arbitrary: es m rule: induct_list012)
  case 1
  then show ?case by simp
next
  case (2 x)
  have "parse_tokens m (FArr es # st) (toks x @ TRBracket # ts)
      = continue_with (deliver x (FArr es # st)) (TRBracket # ts)"
    using "2.prems"(1) [of x m] "2.prems"(3) by simp
  then show ?case by (simp add: continue_with_Some parse_tokens_Cons)
next
  case (3 x y zs)
  have "parse_tokens m (FArr es # st)
          (toks x @ TComma # join_tok (map toks (y # zs)) @ TRBracket # ts)
      = continue_with (deliver x (FArr es # st))
          (TComma # join_tok (map toks (y # zs)) @ TRBracket # ts)"
    using "3.prems"(1) [of x m] "3.prems"(3) by simp
  also have "\<dots> = parse_tokens PValue (FArr (es @ [x]) # st)
          (join_tok (map toks (y # zs)) @ TRBracket # ts)"
    by (simp add: continue_with_Some parse_tokens_Cons)
  also have "\<dots> = continue_with (deliver (JArr ((es @ [x]) @ y # zs)) st) ts"
    using "3.prems"(1) by (intro "3.IH"(2)) simp_all
  finally show ?case by simp
qed

lemma parse_members:
  assumes elem: "\<And>x st ts. x \<in> set ms \<Longrightarrow>
      parse_tokens PValue st (toks (snd x) @ ts) = continue_with (deliver (snd x) st) ts"
    and ne: "ms \<noteq> []"
    and dist: "distinct (map fst (acc @ ms))"
    and m: "m = PKey \<or> m = PKeyOrClose"
  shows "parse_tokens m (FObj acc None # st)
           (join_tok (map (\<lambda>m. TStr (fst m) # TColon # toks (snd m)) ms) @ TRBrace # ts)
           = continue_with (deliver (JObj (acc @ ms)) st) ts"
  using elem ne dist m
proof (induction ms arbitrary: acc m rule: induct_list012)
  case 1
  then show ?case by simp
next
  case (2 x)
  obtain k v where x: "x = (k, v)" by (cases x)
  with "2.prems"(3) have fresh: "k \<notin> fst ` set acc" by auto
  have "parse_tokens m (FObj acc None # st) (TStr k # TColon # toks v @ TRBrace # ts)
      = parse_tokens PValue (FObj acc (Some k) # st) (toks v @ TRBrace # ts)"
    using "2.prems"(4) by (auto simp: parse_tokens_Cons continue_with_Some)
  also have "\<dots> = continue_with (deliver v (FObj acc (Some k) # st)) (TRBrace # ts)"
    using "2.prems"(1) [of x] x by simp
  also have "\<dots> = continue_with (deliver (JObj (acc @ [(k, v)])) st) ts"
    by (simp add: continue_with_Some parse_tokens_Cons obj_put_fresh [OF fresh])
  finally show ?case using x by simp
next
  case (3 x y zs)
  obtain k v where x: "x = (k, v)" by (cases x)
  with "3.prems"(3) have fresh: "k \<notin> fst ` set acc" by auto
  let ?rest = "join_tok (map (\<lambda>m. TStr (fst m) # TColon # toks (snd m)) (y # zs)) @ TRBrace # ts"
  have "parse_tokens m (FObj acc None # st) (TStr k # TColon # toks v @ TComma # ?rest)
      = parse_tokens PValue (FObj acc (Some k) # st) (toks v @ TComma # ?rest)"
    using "3.prems"(4) by (auto simp: parse_tokens_Cons continue_with_Some)
  also have "\<dots> = continue_with (deliver v (FObj acc (Some k) # st)) (TComma # ?rest)"
    using "3.prems"(1) [of x] x by simp
  also have "\<dots> = parse_tokens PKey (FObj (acc @ [(k, v)]) None # st) ?rest"
    by (simp add: continue_with_Some parse_tokens_Cons obj_put_fresh [OF fresh])
  also have "\<dots> = continue_with (deliver (JObj ((acc @ [(k, v)]) @ y # zs)) st) ts"
    using "3.prems"(1) "3.prems"(3) x by (intro "3.IH"(2)) simp_all
  finally show ?case using x by simp
qed

lemma parse_toks:
  "printable v \<Longrightarrow> m = PValue \<or> m = PValueOrClose \<Longrightarrow>
     parse_tokens m st (toks v @ ts) = continue_with (deliver v st) ts"
proof (induction v arbitrary: m st ts)
  case JNull
  then show ?case by (auto simp: parse_tokens_Cons)
next
  case (JBool b)
  then show ?case by (cases b) (auto simp: parse_tokens_Cons)
next
  case (JNum x)
  then show ?case by (auto simp: parse_tokens_Cons)
next
  case (JStr s)
  then show ?case by (auto simp: parse_tokens_Cons)
next
  case (JArr vs)
  have start: "pstep m st TLBracket = Some (PValueOrClose, FArr [] # st)"
    using JArr.prems(2) by auto
  show ?case
  proof (cases "vs = []")
    case True
    then show ?thesis by (simp add: start parse_tokens_Cons continue_with_Some)
  next
    case False
    have "parse_tokens PValueOrClose (FArr [] # st) (join_tok (map toks vs) @ TRBracket # ts)
        = continue_with (deliver (JArr ([] @ vs)) st) ts"
    proof (rule parse_elems [OF _ False])
      fix x m' st' ts'
      assume "x \<in> set vs" "m' = PValue \<or> m' = PValueOrClose"
      with JArr.IH JArr.prems(1)
      show "parse_tokens m' st' (toks x @ ts') = continue_with (deliver x st') ts'"
        by (simp add: list_all_iff)
    qed simp
    then show ?thesis by (simp add: start parse_tokens_Cons continue_with_Some)
  qed
next
  case (JObj ms)
  let ?g = "\<lambda>m. TStr (fst m) # TColon # toks (snd m)"
  have start: "pstep m st TLBrace = Some (PKeyOrClose, FObj [] None # st)"
    using JObj.prems(2) by auto
  show ?case
  proof (cases "ms = []")
    case True
    then show ?thesis by (simp add: start parse_tokens_Cons continue_with_Some)
  next
    case False
    have "parse_tokens PKeyOrClose (FObj [] None # st) (join_tok (map ?g ms) @ TRBrace # ts)
        = continue_with (deliver (JObj ([] @ ms)) st) ts"
    proof (rule parse_members [OF _ False])
      fix x st' ts'
      assume x: "x \<in> set ms"
      obtain k v where kv: "x = (k, v)" by (cases x)
      with x JObj.prems(1) have "printable v" by (auto simp: list_all_iff)
      moreover from kv have "v \<in> Basic_BNFs.snds x" by simp
      ultimately have "parse_tokens PValue st' (toks v @ ts') = continue_with (deliver v st') ts'"
        using JObj.IH x by blast
      with kv show "parse_tokens PValue st' (toks (snd x) @ ts')
          = continue_with (deliver (snd x) st') ts'" by simp
    next
      show "distinct (map fst ([] @ ms))" using JObj.prems(1) by simp
    qed simp
    then show ?thesis by (simp add: start parse_tokens_Cons continue_with_Some)
  qed
qed

lemma JSON_parse_str: "printable v \<Longrightarrow> JSON_parse (str v) = Some v"
  using parse_toks [of v PValue "[]" "[]"]
  by (simp add: JSON_parse_def lex_str_all continue_with_def parse_tokens.simps)

lemma jsonMatch_str_JObj: "jsonMatch (str (JObj ms)) = Some (str (JObj ms))"
  by (simp add: jsonMatch_braces)

section \<open>Response Normalizer: \<open>parseGeminiResponse\<close> (src/config/cloudinary.js)\<close>

text \<open>
  \<open>text.match(/\{[\s\S]*\}/)\<close>: the match starts at the first \<open>{\<close> and, the star being
  greedy, ends at the last \<open>}\<close> after it; there is no match when no \<open>}\<close> follows
  the first \<open>{\<close>. \<open>jsonMatch\<close> (defined with the parser above) returns \<open>jsonMatch[0]\<close>.

  Reading a property of a value: \<open>member v k\<close> is \<open>v.k\<close> for an object, and
  \<open>undefined\<close> (\<open>None\<close>) when the key is absent or the value is no object. It is used
  only with keys that are not names of built-in properties.
\<close>

definition member :: "json \<Rightarrow> jsstr \<Rightarrow> json option" where
  "member v k = (case v of JObj ms \<Rightarrow> map_of ms k | _ \<Rightarrow> None)"

definition member2 :: "json \<Rightarrow> jsstr \<Rightarrow> jsstr \<Rightarrow> json option" where
  "member2 v k l = (case member v k of None \<Rightarrow> None | Some w \<Rightarrow> member w l)"

text \<open>The record returned when the text has no JSON block.\<close>

definition no_json_response :: "jsstr \<Rightarrow> json" where
  "no_json_response text =
     JObj
      [(js ''summary'', JObj
          [(js ''english'', JStr (take 500 text @ js ''...'')),
           (js ''urdu'', JStr (js ''Report ka summary Roman Urdu mein translate karna hai''))]),
       (js ''keyFindings'', JArr []),
       (js ''recommendations'', JObj
          [(js ''english'', JArr [JStr (js ''Consult with your doctor for detailed analysis'')]),
           (js ''urdu'', JArr [JStr (js ''Apne doctor se detailed analysis ke liye consult karein'')])]),
       (js ''doctorQuestions'', JObj
          [(js ''english'', JArr [JStr (js ''What do these results mean for my health?'')]),
           (js ''urdu'', JArr [JStr (js ''Ye results mere health ke liye kya matlab hai?'')])]),
       (js ''riskFactors'', JArr []),
       (js ''followUpRequired'', JBool True),
       (js ''followUpTimeframe'', JStr (js ''1-month'')),
       (js ''confidence'', JNum 60)]"

text \<open>The record returned from the \<open>catch\<close> block, when \<open>JSON.parse\<close> throws.\<close>

definition parse_error_response :: json where
  "parse_error_response =
     JObj
      [(js ''summary'', JObj
          [(js ''english'', JStr (js ''Unable to parse report. Please consult your doctor.'')),
           (js ''urdu'', JStr (js ''Report parse nahi kar sakte. Doctor se consult karein.''))]),
       (js ''keyFindings'', JArr []),
       (js ''recommendations'', JObj
          [(js ''english'', JArr [JStr (js ''Consult with your doctor'')]),
           (js ''urdu'', JArr [JStr (js ''Doctor se consult karein'')])]),
       (js ''doctorQuestions'', JObj
          [(js ''english'', JArr [JStr (js ''Please explain these results'')]),
           (js ''urdu'', JArr [JStr (js ''In results ki explanation dijiye'')])]),
       (js ''riskFactors'', JArr []),
       (js ''followUpRequired'', JBool True),
       (js ''followUpTimeframe'', JStr (js ''1-month'')),
       (js ''confidence'', JNum 30)]"

definition parseGeminiResponse :: "jsstr \<Rightarrow> json" where
  "parseGeminiResponse text =
     (case jsonMatch text of
        Some block \<Rightarrow>
          (case JSON_parse block of
             Some v \<Rightarrow> v
           | None \<Rightarrow> parse_error_response)
      | None \<Rightarrow> no_json_response text)"

text \<open>
  The conditions an insight payload has to meet: an integer confidence from 0 to 100, two
  non-empty summaries, and the enumerated fields inside the sets of \<open>aiInsightSchema\<close>.
\<close>

definition statuses :: "jsstr list" where
  "statuses = [js ''normal'', js ''high'', js ''low'', js ''abnormal'', js ''critical'']"

definition levels :: "jsstr list" where
  "levels = [js ''low'', js ''medium'', js ''high'']"

definition timeframes :: "jsstr list" where
  "timeframes = [js ''1-week'', js ''2-weeks'', js ''1-month'', js ''3-months'', js ''6-months'',
     js ''1-year'']"

definition nonempty_string :: "json option \<Rightarrow> bool" where
  "nonempty_string v = (case v of Some (JStr s) \<Rightarrow> s \<noteq> [] | _ \<Rightarrow> False)"

definition one_of :: "jsstr list \<Rightarrow> json option \<Rightarrow> bool" where
  "one_of allowed v = (case v of Some (JStr s) \<Rightarrow> s \<in> set allowed | _ \<Rightarrow> False)"

definition each_one_of :: "jsstr \<Rightarrow> jsstr list \<Rightarrow> json option \<Rightarrow> bool" where
  "each_one_of field allowed v =
     (case v of Some (JArr xs) \<Rightarrow> list_all (\<lambda>x. one_of allowed (member x field)) xs
      | _ \<Rightarrow> False)"

definition confidence_in_range :: "json option \<Rightarrow> bool" where
  "confidence_in_range v =
     (case v of Some (JNum x) \<Rightarrow> of_int \<lfloor>x\<rfloor> = x \<and> 0 \<le> x \<and> x \<le> 100 | _ \<Rightarrow> False)"

definition schema_valid :: "json \<Rightarrow> bool" where
  "schema_valid r \<longleftrightarrow>
     confidence_in_range (member r (js ''confidence'')) \<and>
     nonempty_string (member2 r (js ''summary'') (js ''english'')) \<and>
     nonempty_string (member2 r (js ''summary'') (js ''urdu'')) \<and>
     each_one_of (js ''status'') statuses (member r (js ''keyFindings'')) \<and>
     each_one_of (js ''level'') levels (member r (js ''riskFactors'')) \<and>
     one_of timeframes (member r (js ''followUpTimeframe''))"

subsection \<open>The match\<close>

lemma dropWhile_open_brace:
  "0x7B \<notin> set p \<Longrightarrow> dropWhile (\<lambda>c::nat. c \<noteq> 0x7B) (p @ 0x7B # ys) = 0x7B # ys"
  by (induction p) simp_all

lemma rev_dropWhile_close_brace:
  "rev (dropWhile (\<lambda>c::nat. c \<noteq> 0x7D) (rev (xs @ [0x7D]))) = xs @ [0x7D]"
  by simp

lemma jsonMatch_prefix:
  assumes "0x7B \<notin> set p"
  shows "jsonMatch (p @ 0x7B # xs @ [0x7D]) = Some (0x7B # xs @ [0x7D])"
proof -
  have "dropWhile (\<lambda>c::nat. c \<noteq> 0x7B) (p @ 0x7B # xs @ [0x7D]) = 0x7B # xs @ [0x7D]"
    using assms by (rule dropWhile_open_brace)
  moreover have "(0x7D::nat) \<in> set (xs @ [0x7D])" by simp
  ultimately show ?thesis
    unfolding jsonMatch_def by (simp only: list.case if_True rev_dropWhile_close_brace)
qed

lemma jsonMatch_Some_decompose:
  assumes "jsonMatch t = Some b"
  shows "\<exists>p q r. t = p @ 0x7B # q @ 0x7D # r"
proof (cases "dropWhile (\<lambda>c::nat. c \<noteq> 0x7B) t")
  case Nil
  with assms show ?thesis by (simp add: jsonMatch_def)
next
  case (Cons c body)
  have "c = hd (dropWhile (\<lambda>c::nat. c \<noteq> 0x7B) t)" using Cons by simp
  moreover have "dropWhile (\<lambda>c::nat. c \<noteq> 0x7B) t \<noteq> []" using Cons by simp
  ultimately have c: "c = 0x7B" using hd_dropWhile [of "\<lambda>c::nat. c \<noteq> 0x7B" t] by simp
  from assms Cons have "0x7D \<in> set body"
    by (simp add: jsonMatch_def split: if_splits)
  then obtain q r where body: "body = q @ 0x7D # r" by (auto dest: split_list)
  have "t = takeWhile (\<lambda>c::nat. c \<noteq> 0x7B) t @ dropWhile (\<lambda>c::nat. c \<noteq> 0x7B) t" by simp
  with Cons c body have "t = takeWhile (\<lambda>c::nat. c \<noteq> 0x7B) t @ 0x7B # q @ 0x7D # r" by simp
  then show ?thesis by blast
qed

lemma jsonMatch_decomposed: "jsonMatch (p @ 0x7B # q @ 0x7D # r) \<noteq> None"
proof (induction p)
  case Nil
  show ?case by (simp add: jsonMatch_def)
next
  case (Cons a p)
  show ?case
  proof (cases "a = 0x7B")
    case True
    then show ?thesis by (simp add: jsonMatch_def)
  next
    case False
    then have "jsonMatch ((a # p) @ 0x7B # q @ 0x7D # r) = jsonMatch (p @ 0x7B # q @ 0x7D # r)"
      by (simp add: jsonMatch_def)
    with Cons show ?thesis by simp
  qed
qed

lemma jsonMatch_None_iff:
  "jsonMatch t = None \<longleftrightarrow> \<not> (\<exists>p q r. t = p @ 0x7B # q @ 0x7D # r)"
proof
  assume "jsonMatch t = None"
  then show "\<not> (\<exists>p q r. t = p @ 0x7B # q @ 0x7D # r)"
    using jsonMatch_decomposed by blast
next
  assume no: "\<not> (\<exists>p q r. t = p @ 0x7B # q @ 0x7D # r)"
  show "jsonMatch t = None"
  proof (cases "jsonMatch t")
    case None
    then show ?thesis .
  next
    case (Some b)
    then have "\<exists>p q r. t = p @ 0x7B # q @ 0x7D # r" by (rule jsonMatch_Some_decompose)
    with no show ?thesis by simp
  qed
qed

subsection \<open>The two degraded records\<close>

lemma printable_no_json_response: "printable (no_json_response t)"
  by (simp add: no_json_response_def js_def)

lemma printable_parse_error_response: "printable parse_error_response"
  by (simp add: parse_error_response_def js_def)

lemma parseGeminiResponse_str:
  assumes "printable (JObj ms)"
  shows "parseGeminiResponse (str (JObj ms)) = JObj ms"
proof -
  have "jsonMatch (str (JObj ms)) = Some (str (JObj ms))" by (rule jsonMatch_str_JObj)
  moreover have "JSON_parse (str (JObj ms)) = Some (JObj ms)" using assms by (rule JSON_parse_str)
  ultimately show ?thesis by (simp add: parseGeminiResponse_def)
qed

lemma renormalize_no_json_response:
  "JSON_stringify (no_json_response t) = Some (str (no_json_response t)) \<and>
   parseGeminiResponse (str (no_json_response t)) = no_json_response t"
proof -
  obtain ms where ms: "no_json_response t = JObj ms" by (simp add: no_json_response_def)
  with printable_no_json_response [of t] have p: "printable (JObj ms)" by simp
  from p have "JSON_stringify (JObj ms) = Some (str (JObj ms))" by (rule JSON_stringify_str)
  moreover from p have "parseGeminiResponse (str (JObj ms)) = JObj ms"
    by (rule parseGeminiResponse_str)
  ultimately show ?thesis unfolding ms by (rule conjI)
qed

lemma renormalize_parse_error_response:
  "JSON_stringify parse_error_response = Some (str parse_error_response) \<and>
   parseGeminiResponse (str parse_error_response) = parse_error_response"
proof -
  obtain ms where ms: "parse_error_response = JObj ms" by (simp add: parse_error_response_def)
  with printable_parse_error_response have p: "printable (JObj ms)" by simp
  from p have "JSON_stringify (JObj ms) = Some (str (JObj ms))" by (rule JSON_stringify_str)
  moreover from p have "parseGeminiResponse (str (JObj ms)) = JObj ms"
    by (rule parseGeminiResponse_str)
  ultimately show ?thesis unfolding ms by (rule conjI)
qed

lemma schema_valid_no_json_response: "schema_valid (no_json_response t)"
  by (simp add: schema_valid_def no_json_response_def member_def member2_def js_def
      confidence_in_range_def nonempty_string_def each_one_of_def one_of_def timeframes_def)

lemma schema_valid_parse_error_response: "schema_valid parse_error_response"
  by (simp add: schema_valid_def parse_error_response_def member_def member2_def js_def
      confidence_in_range_def nonempty_string_def each_one_of_def one_of_def timeframes_def)

lemma no_json_response_fields:
  "member (no_json_response t) (js ''confidence'') = Some (JNum 60)"
  "member (no_json_response t) (js ''keyFindings'') = Some (JArr [])"
  "member (no_json_response t) (js ''riskFactors'') = Some (JArr [])"
  "member2 (no_json_response t) (js ''summary'') (js ''english'')
     = Some (JStr (take 500 t @ js ''...''))"
  "member2 (no_json_response t) (js ''recommendations'') (js ''english'')
     = Some (JArr [JStr (js ''Consult with your doctor for detailed analysis'')])"
  "member2 (no_json_response t) (js ''recommendations'') (js ''urdu'')
     = Some (JArr [JStr (js ''Apne doctor se detailed analysis ke liye consult karein'')])"
  by (simp_all add: no_json_response_def member_def member2_def js_def)

lemma parse_error_response_fields:
  "member parse_error_response (js ''confidence'') = Some (JNum 30)"
  "member parse_error_response (js ''keyFindings'') = Some (JArr [])"
  "member parse_error_response (js ''riskFactors'') = Some (JArr [])"
  by (simp_all add: parse_error_response_def member_def js_def)

lemmas lex_eval = is_ws_def is_digit_def tok_def cons_to_def unhex_def unescape_def
  lex_number_def lex_int_def lex_frac_def lex_exp_def lex_sign_def digits_value_def scale10_def
  lex.simps lex_string.simps parse_tokens.simps

lemma jsonMatch_unexpected: "jsonMatch (js ''the model said something unexpected'') = None"
  by (simp add: jsonMatch_def js_def)

lemma jsonMatch_oops: "jsonMatch (js ''{oops}'') = Some (js ''{oops}'')"
  by (simp add: jsonMatch_def js_def)

lemma JSON_parse_oops: "JSON_parse (js ''{oops}'') = None"
  by (simp add: JSON_parse_def js_def lex_eval)

subsection \<open>Texts that carry a printed object\<close>

lemma parseGeminiResponse_prefixed:
  assumes "0x7B \<notin> set p" and "printable (JObj ms)"
  shows "parseGeminiResponse (p @ str (JObj ms)) = JObj ms"
proof -
  let ?xs = "join_comma (map (\<lambda>m. QuoteJSONString (fst m) @ 0x3A # str (snd m)) ms)"
  have s: "str (JObj ms) = 0x7B # ?xs @ [0x7D]" by simp
  have "jsonMatch (p @ 0x7B # ?xs @ [0x7D]) = Some (0x7B # ?xs @ [0x7D])"
    using assms(1) by (rule jsonMatch_prefix)
  then have "jsonMatch (p @ str (JObj ms)) = Some (str (JObj ms))" by (simp only: s)
  moreover have "JSON_parse (str (JObj ms)) = Some (JObj ms)"
    using assms(2) by (rule JSON_parse_str)
  ultimately show ?thesis by (simp add: parseGeminiResponse_def)
qed

text \<open>The object embedded in the text of claim C7.\<close>

definition embedded_payload :: json where
  "embedded_payload =
     JObj
      [(js ''summary'', JObj [(js ''english'', JStr (js ''ok'')), (js ''urdu'', JStr (js ''ok''))]),
       (js ''keyFindings'', JArr []),
       (js ''recommendations'', JObj [(js ''english'', JArr []), (js ''urdu'', JArr [])]),
       (js ''doctorQuestions'', JObj [(js ''english'', JArr []), (js ''urdu'', JArr [])]),
       (js ''riskFactors'', JArr []),
       (js ''followUpRequired'', JBool False),
       (js ''confidence'', JNum 90)]"

lemma printable_embedded_payload: "printable embedded_payload"
  by (simp add: embedded_payload_def js_def)

lemmas str_eval = js_def QuoteJSONString_def quote_unit_def is_leading_surrogate_def
  is_trailing_surrogate_def num_str_def digits_of.simps

lemma str_embedded_payload:
  \<open>js ''Result: {"summary":{"english":"ok","urdu":"ok"},"keyFindings":[],"recommendations":{"english":[],"urdu":[]},"doctorQuestions":{"english":[],"urdu":[]},"riskFactors":[],"followUpRequired":false,"confidence":90}''
     = js ''Result: '' @ str embedded_payload\<close>
  by (simp add: embedded_payload_def str_eval)

text \<open>
  C7. For the raw text \<open>Result: {"summary":{"english":"ok","urdu":"ok"}, ...,
  "confidence":90}\<close> the normalizer finds the embedded object (braces nested
  inside it), parses it and returns it; its confidence is 90.
\<close>

theorem parseGeminiResponse_embedded_object:
  \<open>parseGeminiResponse (js ''Result: {"summary":{"english":"ok","urdu":"ok"},"keyFindings":[],"recommendations":{"english":[],"urdu":[]},"doctorQuestions":{"english":[],"urdu":[]},"riskFactors":[],"followUpRequired":false,"confidence":90}'')
     = embedded_payload \<and>
   member (parseGeminiResponse (js ''Result: {"summary":{"english":"ok","urdu":"ok"},"keyFindings":[],"recommendations":{"english":[],"urdu":[]},"doctorQuestions":{"english":[],"urdu":[]},"riskFactors":[],"followUpRequired":false,"confidence":90}''))
     (js ''confidence'') = Some (JNum 90)\<close>
proof -
  obtain ms where ms: "embedded_payload = JObj ms" by (simp add: embedded_payload_def)
  have p: "0x7B \<notin> set (js ''Result: '')" by (simp add: js_def)
  have "parseGeminiResponse (js ''Result: '' @ str (JObj ms)) = JObj ms"
    using p printable_embedded_payload [unfolded ms] by (rule parseGeminiResponse_prefixed)
  then have r: "parseGeminiResponse (js ''Result: '' @ str embedded_payload) = embedded_payload"
    by (simp only: ms)
  have c: "member embedded_payload (js ''confidence'') = Some (JNum 90)"
    by (simp add: embedded_payload_def member_def js_def)
  show ?thesis
    unfolding str_embedded_payload r using c by simp
qed

text \<open>
  C8. A text with no \<open>{\<close> followed by a \<open>}\<close> gives the degraded record of the
  "no JSON found" branch: confidence 60, no findings, no risk factors, the generic
  recommendation in both languages, and an English summary that is the first 500 code
  units of the text followed by three dots. A text whose block fails to parse gives the
  record of the \<open>catch\<close> branch, with confidence 30.
\<close>

theorem parseGeminiResponse_degraded:
  "(\<not> (\<exists>p q r. t = p @ 0x7B # q @ 0x7D # r) \<longrightarrow>
      parseGeminiResponse t = no_json_response t \<and>
      member (parseGeminiResponse t) (js ''confidence'') = Some (JNum 60) \<and>
      member (parseGeminiResponse t) (js ''keyFindings'') = Some (JArr []) \<and>
      member (parseGeminiResponse t) (js ''riskFactors'') = Some (JArr []) \<and>
      member2 (parseGeminiResponse t) (js ''summary'') (js ''english'')
        = Some (JStr (take 500 t @ js ''...'')) \<and>
      member2 (parseGeminiResponse t) (js ''recommendations'') (js ''english'')
        = Some (JArr [JStr (js ''Consult with your doctor for detailed analysis'')]) \<and>
      member2 (parseGeminiResponse t) (js ''recommendations'') (js ''urdu'')
        = Some (JArr [JStr (js ''Apne doctor se detailed analysis ke liye consult karein'')])) \<and>
   (jsonMatch t = Some b \<and> JSON_parse b = None \<longrightarrow>
      parseGeminiResponse t = parse_error_response \<and>
      member (parseGeminiResponse t) (js ''confidence'') = Some (JNum 30) \<and>
      member (parseGeminiResponse t) (js ''keyFindings'') = Some (JArr []) \<and>
      member (parseGeminiResponse t) (js ''riskFactors'') = Some (JArr []))"
proof (intro conjI impI)
  assume "\<not> (\<exists>p q r. t = p @ 0x7B # q @ 0x7D # r)"
  then have "jsonMatch t = None" using jsonMatch_None_iff [of t] by blast
  then show r: "parseGeminiResponse t = no_json_response t"
    by (simp add: parseGeminiResponse_def)
  show "member (parseGeminiResponse t) (js ''confidence'') = Some (JNum 60)"
    "member (parseGeminiResponse t) (js ''keyFindings'') = Some (JArr [])"
    "member (parseGeminiResponse t) (js ''riskFactors'') = Some (JArr [])"
    "member2 (parseGeminiResponse t) (js ''summary'') (js ''english'')
        = Some (JStr (take 500 t @ js ''...''))"
    "member2 (parseGeminiResponse t) (js ''recommendations'') (js ''english'')
        = Some (JArr [JStr (js ''Consult with your doctor for detailed analysis'')])"
    "member2 (parseGeminiResponse t) (js ''recommendations'') (js ''urdu'')
        = Some (JArr [JStr (js ''Apne doctor se detailed analysis ke liye consult karein'')])"
    unfolding r by (rule no_json_response_fields)+
next
  assume "jsonMatch t = Some b \<and> JSON_parse b = None"
  then show r: "parseGeminiResponse t = parse_error_response"
    by (simp add: parseGeminiResponse_def)
  show "member (parseGeminiResponse t) (js ''confidence'') = Some (JNum 30)"
    "member (parseGeminiResponse t) (js ''keyFindings'') = Some (JArr [])"
    "member (parseGeminiResponse t) (js ''riskFactors'') = Some (JArr [])"
    unfolding r by (rule parse_error_response_fields)+
qed

text \<open>
  The theorem at the text of the specification, which has no brace at all, and at the
  text \<open>{oops}\<close>, whose block is not JSON.
\<close>

theorem parseGeminiResponse_degraded_witness:
  "parseGeminiResponse (js ''the model said something unexpected'')
     = no_json_response (js ''the model said something unexpected'') \<and>
   member (parseGeminiResponse (js ''the model said something unexpected'')) (js ''confidence'')
     = Some (JNum 60) \<and>
   member (parseGeminiResponse (js ''the model said something unexpected'')) (js ''keyFindings'')
     = Some (JArr []) \<and>
   member2 (parseGeminiResponse (js ''the model said something unexpected''))
     (js ''summary'') (js ''english'') = Some (JStr (js ''the model said something unexpected...'')) \<and>
   jsonMatch (js ''{oops}'') = Some (js ''{oops}'') \<and>
   JSON_parse (js ''{oops}'') = None \<and>
   parseGeminiResponse (js ''{oops}'') = parse_error_response \<and>
   member (parseGeminiResponse (js ''{oops}'')) (js ''confidence'') = Some (JNum 30)"
proof -
  have "jsonMatch (js ''the model said something unexpected'') = None"
    by (rule jsonMatch_unexpected)
  then have n: "\<not> (\<exists>p q r. js ''the model said something unexpected'' = p @ 0x7B # q @ 0x7D # r)"
    using jsonMatch_None_iff [of "js ''the model said something unexpected''"] by blast
  have e: "take 500 (js ''the model said something unexpected'') @ js ''...''
      = js ''the model said something unexpected...''"
    by (simp add: js_def)
  note a = parseGeminiResponse_degraded [of "js ''the model said something unexpected''"
      "[]", THEN conjunct1, rule_format, OF n]
  note b = parseGeminiResponse_degraded [of "js ''{oops}''" "js ''{oops}''", THEN conjunct2,
      rule_format, OF conjI [OF jsonMatch_oops JSON_parse_oops]]
  from a [unfolded e] b jsonMatch_oops JSON_parse_oops show ?thesis
    by blast
qed

text \<open>
  C9. When the normalizer returned one of its two degraded records, serialising that
  record with \<open>JSON.stringify\<close> and normalising the serialisation again gives the
  same record.
\<close>

theorem renormalize_degraded:
  "jsonMatch t = None \<or> (\<exists>b. jsonMatch t = Some b \<and> JSON_parse b = None) \<Longrightarrow>
     \<exists>s. JSON_stringify (parseGeminiResponse t) = Some s \<and>
         parseGeminiResponse s = parseGeminiResponse t"
proof (erule disjE)
  assume "jsonMatch t = None"
  then have "parseGeminiResponse t = no_json_response t"
    by (simp add: parseGeminiResponse_def)
  with renormalize_no_json_response [of t] show ?thesis by auto
next
  assume "\<exists>b. jsonMatch t = Some b \<and> JSON_parse b = None"
  then have "parseGeminiResponse t = parse_error_response"
    by (auto simp: parseGeminiResponse_def)
  with renormalize_parse_error_response show ?thesis by auto
qed

lemma jsonMatch_no_report: "jsonMatch (js ''no report found'') = None"
  by (simp add: jsonMatch_def js_def)

theorem renormalize_degraded_witness:
  "jsonMatch (js ''no report found'') = None \<and>
   (\<exists>s. JSON_stringify (parseGeminiResponse (js ''no report found'')) = Some s \<and>
        parseGeminiResponse s = parseGeminiResponse (js ''no report found'')) \<and>
   jsonMatch (js ''{oops}'') = Some (js ''{oops}'') \<and> JSON_parse (js ''{oops}'') = None \<and>
   (\<exists>s. JSON_stringify (parseGeminiResponse (js ''{oops}'')) = Some s \<and>
        parseGeminiResponse s = parseGeminiResponse (js ''{oops}''))"
proof -
  have a: "\<exists>s. JSON_stringify (parseGeminiResponse (js ''no report found'')) = Some s \<and>
        parseGeminiResponse s = parseGeminiResponse (js ''no report found'')"
    using jsonMatch_no_report by (intro renormalize_degraded) simp
  have b: "\<exists>s. JSON_stringify (parseGeminiResponse (js ''{oops}'')) = Some s \<and>
        parseGeminiResponse s = parseGeminiResponse (js ''{oops}'')"
    using jsonMatch_oops JSON_parse_oops by (intro renormalize_degraded) simp
  from a b jsonMatch_no_report jsonMatch_oops JSON_parse_oops show ?thesis by blast
qed

lemma degraded_followUpTimeframe:
  "member (no_json_response t) (js ''followUpTimeframe'') = Some (JStr (js ''1-month''))"
  "member parse_error_response (js ''followUpTimeframe'') = Some (JStr (js ''1-month''))"
  by (simp_all add: no_json_response_def parse_error_response_def member_def js_def)

text \<open>
  C1, as the code has it. The function returns for every text. When the text has no block,
  the record returned is the first degraded record: it meets the schema (a confidence from
  0 to 100, non-empty summaries, enumerated fields inside their sets), its confidence is
  60, its findings and risk factors are empty and its \<open>followUpTimeframe\<close> is
  \<open>1-month\<close>. When the block fails to parse, the record returned is the second degraded
  record: the same, with confidence 30. When the block parses, the parsed value is
  returned as it is, whatever its fields hold.
\<close>

theorem parseGeminiResponse_schema:
  "(jsonMatch t = None \<longrightarrow>
      parseGeminiResponse t = no_json_response t \<and>
      schema_valid (parseGeminiResponse t) \<and>
      member (parseGeminiResponse t) (js ''confidence'') = Some (JNum 60) \<and>
      member (parseGeminiResponse t) (js ''keyFindings'') = Some (JArr []) \<and>
      member (parseGeminiResponse t) (js ''riskFactors'') = Some (JArr []) \<and>
      member (parseGeminiResponse t) (js ''followUpTimeframe'') = Some (JStr (js ''1-month''))) \<and>
   ((\<exists>b. jsonMatch t = Some b \<and> JSON_parse b = None) \<longrightarrow>
      parseGeminiResponse t = parse_error_response \<and>
      schema_valid (parseGeminiResponse t) \<and>
      member (parseGeminiResponse t) (js ''confidence'') = Some (JNum 30) \<and>
      member (parseGeminiResponse t) (js ''keyFindings'') = Some (JArr []) \<and>
      member (parseGeminiResponse t) (js ''riskFactors'') = Some (JArr []) \<and>
      member (parseGeminiResponse t) (js ''followUpTimeframe'') = Some (JStr (js ''1-month''))) \<and>
   (jsonMatch t = Some b \<and> JSON_parse b = Some v \<longrightarrow> parseGeminiResponse t = v)"
proof -
  have 1: "parseGeminiResponse t = no_json_response t \<and>
      schema_valid (parseGeminiResponse t) \<and>
      member (parseGeminiResponse t) (js ''confidence'') = Some (JNum 60) \<and>
      member (parseGeminiResponse t) (js ''keyFindings'') = Some (JArr []) \<and>
      member (parseGeminiResponse t) (js ''riskFactors'') = Some (JArr []) \<and>
      member (parseGeminiResponse t) (js ''followUpTimeframe'') = Some (JStr (js ''1-month''))"
    if "jsonMatch t = None"
  proof -
    from that have e: "parseGeminiResponse t = no_json_response t"
      by (simp add: parseGeminiResponse_def)
    show ?thesis
      unfolding e
      using schema_valid_no_json_response [of t] no_json_response_fields(1-3) [of t]
        degraded_followUpTimeframe(1) [of t]
      by (intro conjI) simp_all
  qed
  have 2: "parseGeminiResponse t = parse_error_response \<and>
      schema_valid (parseGeminiResponse t) \<and>
      member (parseGeminiResponse t) (js ''confidence'') = Some (JNum 30) \<and>
      member (parseGeminiResponse t) (js ''keyFindings'') = Some (JArr []) \<and>
      member (parseGeminiResponse t) (js ''riskFactors'') = Some (JArr []) \<and>
      member (parseGeminiResponse t) (js ''followUpTimeframe'') = Some (JStr (js ''1-month''))"
    if "\<exists>b. jsonMatch t = Some b \<and> JSON_parse b = None"
  proof -
    from that have e: "parseGeminiResponse t = parse_error_response"
      by (auto simp: parseGeminiResponse_def)
    show ?thesis
      unfolding e
      using schema_valid_parse_error_response parse_error_response_fields
        degraded_followUpTimeframe(2)
      by (intro conjI) simp_all
  qed
  have 3: "parseGeminiResponse t = v" if "jsonMatch t = Some b \<and> JSON_parse b = Some v"
    using that by (simp add: parseGeminiResponse_def)
  from 1 2 3 show ?thesis by blast
qed

lemma jsonMatch_confidence_150:
  \<open>jsonMatch (js ''{"confidence":150}'') = Some (js ''{"confidence":150}'')\<close>
  by (simp add: jsonMatch_def js_def)

lemma JSON_parse_confidence_150:
  \<open>JSON_parse (js ''{"confidence":150}'') = Some (JObj [(js ''confidence'', JNum 150)])\<close>
  by (simp add: JSON_parse_def js_def lex_eval)

lemma jsonMatch_plain: "jsonMatch (js ''plain words'') = None"
  by (simp add: jsonMatch_def js_def)

text \<open>
  The theorem at a text without a block, at a text whose block does not parse and at a
  text whose block parses.
\<close>

theorem parseGeminiResponse_schema_witness:
  \<open>jsonMatch (js ''plain words'') = None \<and>
   parseGeminiResponse (js ''plain words'') = no_json_response (js ''plain words'') \<and>
   schema_valid (parseGeminiResponse (js ''plain words'')) \<and>
   member (parseGeminiResponse (js ''plain words'')) (js ''confidence'') = Some (JNum 60) \<and>
   jsonMatch (js ''{oops}'') = Some (js ''{oops}'') \<and> JSON_parse (js ''{oops}'') = None \<and>
   parseGeminiResponse (js ''{oops}'') = parse_error_response \<and>
   schema_valid (parseGeminiResponse (js ''{oops}'')) \<and>
   member (parseGeminiResponse (js ''{oops}'')) (js ''confidence'') = Some (JNum 30) \<and>
   jsonMatch (js ''{"confidence":150}'') = Some (js ''{"confidence":150}'') \<and>
   JSON_parse (js ''{"confidence":150}'') = Some (JObj [(js ''confidence'', JNum 150)]) \<and>
   parseGeminiResponse (js ''{"confidence":150}'') = JObj [(js ''confidence'', JNum 150)]\<close>
proof -
  note p = parseGeminiResponse_schema [of "js ''plain words''" "[]" JNull]
  from p jsonMatch_plain
  have a: "parseGeminiResponse (js ''plain words'') = no_json_response (js ''plain words'')"
    "schema_valid (parseGeminiResponse (js ''plain words''))"
    "member (parseGeminiResponse (js ''plain words'')) (js ''confidence'') = Some (JNum 60)"
    by blast+
  note q = parseGeminiResponse_schema [of "js ''{oops}''" "[]" JNull]
  from q jsonMatch_oops JSON_parse_oops
  have b: "parseGeminiResponse (js ''{oops}'') = parse_error_response"
    "schema_valid (parseGeminiResponse (js ''{oops}''))"
    "member (parseGeminiResponse (js ''{oops}'')) (js ''confidence'') = Some (JNum 30)"
    by blast+
  have c: \<open>parseGeminiResponse (js ''{"confidence":150}'') = JObj [(js ''confidence'', JNum 150)]\<close>
    using parseGeminiResponse_schema [THEN conjunct2, THEN conjunct2, rule_format,
        OF conjI [OF jsonMatch_confidence_150 JSON_parse_confidence_150]] .
  from a b c jsonMatch_plain jsonMatch_oops JSON_parse_oops jsonMatch_confidence_150
    JSON_parse_confidence_150
  show ?thesis by (intro conjI)
qed

text \<open>
  The claim as it was stated fails on a text whose block parses: the confidence 150 of
  the block comes back unchanged, and the record has no summary.
\<close>

theorem parseGeminiResponse_schema_counterexample:
  \<open>\<not> schema_valid (parseGeminiResponse (js ''{"confidence":150}''))\<close>
proof -
  have \<open>parseGeminiResponse (js ''{"confidence":150}'') = JObj [(js ''confidence'', JNum 150)]\<close>
    by (simp add: parseGeminiResponse_def jsonMatch_confidence_150 JSON_parse_confidence_150)
  then show ?thesis
    by (simp add: schema_valid_def member_def confidence_in_range_def)
qed

section \<open>Model Invoker: \<open>analyzeMedicalReport\<close> (src/config/cloudinary.js)\<close>

text \<open>
  An exception is a value. \<open>fileData\<close> is a \<open>Buffer\<close> (its bytes) or a string, the two
  forms \<open>processAIInsight\<close> passes.
\<close>

datatype js_error = Error jsstr

datatype file_data = Buffer "nat list" | Text jsstr

text \<open>
  What is sent to the external model. The prompt is the fixed template of the source with
  \<open>fileType\<close> and \<open>reportType\<close> spliced in, so the request is determined by those two
  and by the part that goes with the prompt: the image as inline data with its MIME type,
  or the file data appended to the prompt.
\<close>

datatype request_part = InlineData jsstr "nat list" | Appended file_data

record model_request =
  prompt_fileType :: jsstr
  prompt_reportType :: jsstr
  part :: request_part

text \<open>
  The external model is a parameter: \<open>generate req\<close> is the text of the response, or the
  exception thrown by \<open>model.generateContent\<close>, \<open>result.response\<close> or
  \<open>response.text()\<close>.
\<close>

type_synonym model = "model_request \<Rightarrow> js_error + jsstr"

text \<open>
  The MIME type from the first bytes: the hex of the first four bytes starts with
  \<open>ffd8\<close>, \<open>8950\<close>, \<open>4749\<close> or \<open>424d\<close>.
\<close>

definition detect_mime :: "nat list \<Rightarrow> jsstr" where
  "detect_mime bytes =
     (if take 2 bytes = [0xFF, 0xD8] then js ''image/jpeg''
      else if take 2 bytes = [0x89, 0x50] then js ''image/png''
      else if take 2 bytes = [0x47, 0x49] then js ''image/gif''
      else if take 2 bytes = [0x42, 0x4D] then js ''image/bmp''
      else js ''image/jpeg'')"

definition fallbackResponse :: json where
  "fallbackResponse =
     JObj
      [(js ''summary'', JObj
          [(js ''english'', JStr (js ''AI analysis temporarily unavailable. Please consult your healthcare provider for detailed analysis.'')),
           (js ''urdu'', JStr (js ''AI analysis abhi available nahi hai. Detailed analysis ke liye apne doctor se consult karein.''))]),
       (js ''keyFindings'', JArr []),
       (js ''recommendations'', JObj
          [(js ''english'', JArr [JStr (js ''Consult with your healthcare provider for detailed analysis'')]),
           (js ''urdu'', JArr [JStr (js ''Detailed analysis ke liye apne doctor se consult karein'')])]),
       (js ''doctorQuestions'', JObj
          [(js ''english'', JArr [JStr (js ''What do these results mean?''),
             JStr (js ''Do I need any follow-up tests?'')]),
           (js ''urdu'', JArr [JStr (js ''Ye results ka matlab kya hai?''),
             JStr (js ''Kya mujhe koi follow-up tests chahiye?'')])]),
       (js ''riskFactors'', JArr []),
       (js ''followUpRequired'', JBool True),
       (js ''followUpTimeframe'', JStr (js ''1-month'')),
       (js ''confidence'', JNum 30)]"

text \<open>
  The body of the \<open>try\<close> block: the parsed analysis, or the exception that reaches the
  outer \<open>catch\<close>. In the image branch the inner \<open>catch\<close> wraps the message and throws
  again.
\<close>

definition analyze_attempt :: "model \<Rightarrow> file_data \<Rightarrow> jsstr \<Rightarrow> jsstr \<Rightarrow> js_error + json" where
  "analyze_attempt generate fileData fileType reportType =
     (if fileType = js ''image'' then
        (case fileData of
           Text s \<Rightarrow> Inl (Error (js ''Image data must be a Buffer''))
         | Buffer bytes \<Rightarrow>
             (case generate \<lparr>prompt_fileType = fileType, prompt_reportType = reportType,
                     part = InlineData (detect_mime bytes) bytes\<rparr> of
                Inl (Error msg) \<Rightarrow> Inl (Error (js ''Gemini API failed: '' @ msg))
              | Inr text \<Rightarrow> Inr (parseGeminiResponse text)))
      else
        (case generate \<lparr>prompt_fileType = fileType, prompt_reportType = reportType,
                part = Appended fileData\<rparr> of
           Inl e \<Rightarrow> Inl e
         | Inr text \<Rightarrow> Inr (parseGeminiResponse text)))"

text \<open>
  The value returned. \<open>elapsed\<close> is \<open>Date.now() - startTime\<close>; an absent \<open>fallback\<close>
  property is \<open>False\<close>.
\<close>

record analysis_result =
  success :: bool
  data :: json
  processingTime :: jsnum
  fallback :: bool

definition analyzeMedicalReport ::
  "model \<Rightarrow> jsnum \<Rightarrow> file_data \<Rightarrow> jsstr \<Rightarrow> jsstr \<Rightarrow> analysis_result" where
  "analyzeMedicalReport generate elapsed fileData fileType reportType =
     (case analyze_attempt generate fileData fileType reportType of
        Inr analysis \<Rightarrow>
          \<lparr>success = True, data = analysis, processingTime = elapsed, fallback = False\<rparr>
      | Inl e \<Rightarrow>
          \<lparr>success = True, data = fallbackResponse, processingTime = elapsed, fallback = True\<rparr>)"

subsection \<open>Properties\<close>

lemma schema_valid_fallbackResponse: "schema_valid fallbackResponse"
  by (simp add: schema_valid_def fallbackResponse_def member_def member2_def js_def
      confidence_in_range_def nonempty_string_def each_one_of_def one_of_def timeframes_def)

lemma fallbackResponse_fields:
  "member fallbackResponse (js ''confidence'') = Some (JNum 30)"
  "member fallbackResponse (js ''keyFindings'') = Some (JArr [])"
  "member fallbackResponse (js ''riskFactors'') = Some (JArr [])"
  "member fallbackResponse (js ''followUpRequired'') = Some (JBool True)"
  "member fallbackResponse (js ''followUpTimeframe'') = Some (JStr (js ''1-month''))"
  by (simp_all add: fallbackResponse_def member_def js_def)

lemma analyze_attempt_throws:
  "fileType = js ''image'' \<Longrightarrow> fileData = Text s \<Longrightarrow>
     \<exists>e. analyze_attempt generate fileData fileType reportType = Inl e"
  "fileType = js ''image'' \<Longrightarrow> fileData = Buffer bytes \<Longrightarrow>
     generate \<lparr>prompt_fileType = fileType, prompt_reportType = reportType,
       part = InlineData (detect_mime bytes) bytes\<rparr> = Inl e0 \<Longrightarrow>
     \<exists>e. analyze_attempt generate fileData fileType reportType = Inl e"
  "fileType \<noteq> js ''image'' \<Longrightarrow>
     generate \<lparr>prompt_fileType = fileType, prompt_reportType = reportType,
       part = Appended fileData\<rparr> = Inl e0 \<Longrightarrow>
     \<exists>e. analyze_attempt generate fileData fileType reportType = Inl e"
  by (auto simp: analyze_attempt_def split: js_error.splits)

text \<open>
  C2. \<open>analyzeMedicalReport\<close> returns a result with \<open>success\<close> set for every input and
  every behaviour of the external model. When a step of the \<open>try\<close> block throws (the
  image data is no Buffer, or the external call throws), the result carries the fallback
  payload and the marker \<open>fallback\<close>; that payload meets the schema, with confidence 30,
  no findings, no risk factors, \<open>followUpRequired\<close> true and \<open>followUpTimeframe\<close>
  \<open>1-month\<close>.
\<close>

theorem analyzeMedicalReport_never_throws:
  "success (analyzeMedicalReport generate elapsed fileData ft rt) \<and>
   ((\<exists>e. analyze_attempt generate fileData ft rt = Inl e) \<longrightarrow>
      analyzeMedicalReport generate elapsed fileData ft rt
        = \<lparr>success = True, data = fallbackResponse, processingTime = elapsed, fallback = True\<rparr>) \<and>
   ((ft = js ''image'' \<and> (\<exists>s. fileData = Text s)) \<longrightarrow>
      (\<exists>e. analyze_attempt generate fileData ft rt = Inl e)) \<and>
   ((\<exists>bytes e0. ft = js ''image'' \<and> fileData = Buffer bytes \<and>
       generate \<lparr>prompt_fileType = ft, prompt_reportType = rt,
         part = InlineData (detect_mime bytes) bytes\<rparr> = Inl e0) \<longrightarrow>
      (\<exists>e. analyze_attempt generate fileData ft rt = Inl e)) \<and>
   ((\<exists>e0. ft \<noteq> js ''image'' \<and>
       generate \<lparr>prompt_fileType = ft, prompt_reportType = rt, part = Appended fileData\<rparr>
         = Inl e0) \<longrightarrow>
      (\<exists>e. analyze_attempt generate fileData ft rt = Inl e)) \<and>
   schema_valid fallbackResponse \<and>
   member fallbackResponse (js ''confidence'') = Some (JNum 30) \<and>
   member fallbackResponse (js ''keyFindings'') = Some (JArr []) \<and>
   member fallbackResponse (js ''riskFactors'') = Some (JArr []) \<and>
   member fallbackResponse (js ''followUpRequired'') = Some (JBool True) \<and>
   member fallbackResponse (js ''followUpTimeframe'') = Some (JStr (js ''1-month''))"
proof -
  have a: "success (analyzeMedicalReport generate elapsed fileData ft rt)"
    by (simp add: analyzeMedicalReport_def split: sum.splits)
  have b: "(\<exists>e. analyze_attempt generate fileData ft rt = Inl e) \<longrightarrow>
      analyzeMedicalReport generate elapsed fileData ft rt
        = \<lparr>success = True, data = fallbackResponse, processingTime = elapsed, fallback = True\<rparr>"
    by (auto simp: analyzeMedicalReport_def)
  have c: "(ft = js ''image'' \<and> (\<exists>s. fileData = Text s)) \<longrightarrow>
      (\<exists>e. analyze_attempt generate fileData ft rt = Inl e)"
    using analyze_attempt_throws(1) by blast
  have d: "(\<exists>bytes e0. ft = js ''image'' \<and> fileData = Buffer bytes \<and>
       generate \<lparr>prompt_fileType = ft, prompt_reportType = rt,
         part = InlineData (detect_mime bytes) bytes\<rparr> = Inl e0) \<longrightarrow>
      (\<exists>e. analyze_attempt generate fileData ft rt = Inl e)"
    using analyze_attempt_throws(2) by blast
  have e: "(\<exists>e0. ft \<noteq> js ''image'' \<and>
       generate \<lparr>prompt_fileType = ft, prompt_reportType = rt, part = Appended fileData\<rparr>
         = Inl e0) \<longrightarrow>
      (\<exists>e. analyze_attempt generate fileData ft rt = Inl e)"
    using analyze_attempt_throws(3) by blast
  from a b c d e schema_valid_fallbackResponse fallbackResponse_fields
  show ?thesis by (intro conjI)
qed

text \<open>
  The theorem at an external model that always throws, for a PNG image and for a PDF
  described by text, and at an image request whose data is a string.
\<close>

theorem analyzeMedicalReport_never_throws_witness:
  "analyzeMedicalReport (\<lambda>req. Inl (Error (js ''quota exceeded''))) 1200
      (Buffer [0x89, 0x50, 0x4E, 0x47]) (js ''image'') (js ''blood-test'')
     = \<lparr>success = True, data = fallbackResponse, processingTime = 1200, fallback = True\<rparr> \<and>
   analyzeMedicalReport (\<lambda>req. Inl (Error (js ''quota exceeded''))) 1200
      (Text (js ''Medical Report Analysis Request'')) (js ''pdf'') (js ''blood-test'')
     = \<lparr>success = True, data = fallbackResponse, processingTime = 1200, fallback = True\<rparr> \<and>
   analyzeMedicalReport (\<lambda>req. Inr (js ''{}'')) 5
      (Text (js ''not a buffer'')) (js ''image'') (js ''x-ray'')
     = \<lparr>success = True, data = fallbackResponse, processingTime = 5, fallback = True\<rparr>"
proof -
  let ?g = "\<lambda>req::model_request. (Inl (Error (js ''quota exceeded'')) :: js_error + jsstr)"
  let ?h = "\<lambda>req::model_request. (Inr (js ''{}'') :: js_error + jsstr)"
  note t1 = analyzeMedicalReport_never_throws [of ?g 1200 "Buffer [0x89, 0x50, 0x4E, 0x47]"
      "js ''image''" "js ''blood-test''"]
  note t2 = analyzeMedicalReport_never_throws [of ?g 1200
      "Text (js ''Medical Report Analysis Request'')" "js ''pdf''" "js ''blood-test''"]
  note t3 = analyzeMedicalReport_never_throws [of ?h 5 "Text (js ''not a buffer'')"
      "js ''image''" "js ''x-ray''"]
  have ne: "js ''pdf'' \<noteq> js ''image''" by (simp add: js_def)
  have a: "analyzeMedicalReport ?g 1200 (Buffer [0x89, 0x50, 0x4E, 0x47]) (js ''image'')
      (js ''blood-test'')
     = \<lparr>success = True, data = fallbackResponse, processingTime = 1200, fallback = True\<rparr>"
    using t1 by blast
  have b: "analyzeMedicalReport ?g 1200 (Text (js ''Medical Report Analysis Request''))
      (js ''pdf'') (js ''blood-test'')
     = \<lparr>success = True, data = fallbackResponse, processingTime = 1200, fallback = True\<rparr>"
    using t2 ne by blast
  have c: "analyzeMedicalReport ?h 5 (Text (js ''not a buffer'')) (js ''image'') (js ''x-ray'')
     = \<lparr>success = True, data = fallbackResponse, processingTime = 5, fallback = True\<rparr>"
    using t3 by blast
  from a b c show ?thesis by (intro conjI)
qed

section \<open>The stored entities (src/models/AiInsight.js)\<close>

datatype status = pending | processing | completed | failed

text \<open>
  A \<open>File\<close> document: the paths of \<open>fileSchema\<close> that the pipeline reads or writes.
  \<open>owner\<close> is the path \<open>user\<close>; dates are kept as their text.
\<close>

record file_doc =
  owner :: nat
  originalName :: jsstr
  fileUrl :: jsstr
  fileType :: jsstr
  reportType :: jsstr
  labName :: "jsstr option"
  doctorName :: "jsstr option"
  testDate :: jsstr
  isProcessed :: bool
  processingStatus :: status
  aiInsight :: "nat option"

text \<open>
  The document \<open>new AiInsight({...})\<close> makes. \<open>confidence\<close> and
  \<open>followUpTimeframe\<close> hold the value after the cast of the schema; each other path holds
  the JavaScript value the expression of the source evaluates to.
\<close>

record insight_doc =
  insight_file :: nat
  insight_user :: nat
  rawText :: jsstr
  summary_english :: json
  summary_urdu :: json
  keyFindings :: json
  recommendations :: json
  doctorQuestions :: json
  riskFactors :: json
  followUpRequired :: json
  followUpTimeframe :: json
  confidence :: json
  insight_processingTime :: jsnum
  insight_model :: jsstr

text \<open>
  The two collections. \<open>history\<close> is not part of the program: it records, in order, every
  value written to a \<open>processingStatus\<close>, so that the sequence of statuses of a file can be
  stated.
\<close>

record db =
  files :: "nat \<Rightarrow> file_doc option"
  insights :: "nat \<Rightarrow> insight_doc option"
  history :: "(nat \<times> status) list"

definition empty_db :: db where
  "empty_db = \<lparr>files = (\<lambda>i. None), insights = (\<lambda>i. None), history = []\<rparr>"

definition status_history :: "db \<Rightarrow> nat \<Rightarrow> status list" where
  "status_history d fid = map snd (filter (\<lambda>e. fst e = fid) (history d))"

datatype failure = FileNotFound | DatabaseError | ValidationError | TypeError

subsection \<open>Database operations\<close>

text \<open>
  Every call of the database can throw; whether it does is an argument. A duplicate
  \<open>_id\<close> is refused by the database.
\<close>

definition File_save :: "bool \<Rightarrow> nat \<Rightarrow> file_doc \<Rightarrow> db \<Rightarrow> failure + db" where
  "File_save throws fid f d =
     (if throws \<or> files d fid \<noteq> None then Inl DatabaseError
      else Inr (d\<lparr>files := (files d)(fid := Some f),
                  history := history d @ [(fid, processingStatus f)]\<rparr>))"

definition File_findById :: "bool \<Rightarrow> nat \<Rightarrow> db \<Rightarrow> failure + file_doc option" where
  "File_findById throws fid d = (if throws then Inl DatabaseError else Inr (files d fid))"

definition File_findOne :: "bool \<Rightarrow> nat \<Rightarrow> nat \<Rightarrow> db \<Rightarrow> failure + file_doc option" where
  "File_findOne throws fid uid d =
     (if throws then Inl DatabaseError
      else Inr (case files d fid of
                  None \<Rightarrow> None
                | Some f \<Rightarrow> if owner f = uid then Some f else None))"

text \<open>\<open>findByIdAndUpdate\<close> changes the document when it exists and returns \<open>null\<close> otherwise.\<close>

definition File_findByIdAndUpdate ::
  "bool \<Rightarrow> nat \<Rightarrow> (file_doc \<Rightarrow> file_doc) \<Rightarrow> db \<Rightarrow> failure + db" where
  "File_findByIdAndUpdate throws fid upd d =
     (if throws then Inl DatabaseError
      else case files d fid of
             None \<Rightarrow> Inr d
           | Some f \<Rightarrow>
               Inr (d\<lparr>files := (files d)(fid := Some (upd f)),
                       history := history d @ [(fid, processingStatus (upd f))]\<rparr>))"

definition set_processing :: "file_doc \<Rightarrow> file_doc" where
  "set_processing f = f\<lparr>processingStatus := processing\<rparr>"

definition set_completed :: "nat \<Rightarrow> file_doc \<Rightarrow> file_doc" where
  "set_completed iid f = f\<lparr>aiInsight := Some iid, isProcessed := True, processingStatus := completed\<rparr>"

definition set_failed :: "file_doc \<Rightarrow> file_doc" where
  "set_failed f = f\<lparr>processingStatus := failed\<rparr>"

subsection \<open>Casts and validators of \<open>aiInsightSchema\<close>\<close>

text \<open>
  \<open>StringToNumber\<close> of the language standard, which \<open>Number(s)\<close> applies to a string:
  white space and line terminators are trimmed; the empty string is 0; then a binary,
  octal or hexadecimal integer without sign, or a decimal literal with optional sign,
  fraction and exponent, or \<open>Infinity\<close> with optional sign; anything else is \<open>NaN\<close>.
  Numbers are exact rationals here, where JavaScript has the nearest double.
\<close>

datatype js_number = Finite jsnum | PlusInfinity | MinusInfinity | NaN

definition is_StrWhiteSpaceChar :: "code_unit \<Rightarrow> bool" where
  "is_StrWhiteSpaceChar c \<longleftrightarrow>
     c = 0x09 \<or> c = 0x0A \<or> c = 0x0B \<or> c = 0x0C \<or> c = 0x0D \<or> c = 0x20 \<or> c = 0xA0 \<or>
     c = 0x1680 \<or> (0x2000 \<le> c \<and> c \<le> 0x200A) \<or> c = 0x2028 \<or> c = 0x2029 \<or>
     c = 0x202F \<or> c = 0x205F \<or> c = 0x3000 \<or> c = 0xFEFF"

definition trim_whitespace :: "jsstr \<Rightarrow> jsstr" where
  "trim_whitespace s =
     rev (dropWhile is_StrWhiteSpaceChar (rev (dropWhile is_StrWhiteSpaceChar s)))"

text \<open>The value of a non-empty run of digits of the radix, which must be the whole string.\<close>

fun radix_value :: "nat \<Rightarrow> nat \<Rightarrow> jsstr \<Rightarrow> nat option" where
  "radix_value r n [] = Some n"
| "radix_value r n (c # cs) =
     (case unhex c of
        None \<Rightarrow> None
      | Some v \<Rightarrow> if v < r then radix_value r (r * n + v) cs else None)"

definition NonDecimalIntegerLiteral :: "nat \<Rightarrow> jsstr \<Rightarrow> js_number" where
  "NonDecimalIntegerLiteral r ds =
     (if ds = [] then NaN
      else case radix_value r 0 ds of None \<Rightarrow> NaN | Some n \<Rightarrow> Finite (of_nat n))"

text \<open>
  StrUnsignedDecimalLiteral: \<open>Infinity\<close>, or digits with an optional fraction, or a
  fraction alone, each with an optional exponent. \<open>neg\<close> is the sign read before it.
\<close>

definition StrUnsignedDecimalLiteral :: "bool \<Rightarrow> jsstr \<Rightarrow> js_number" where
  "StrUnsignedDecimalLiteral neg s =
     (if s = js ''Infinity'' then (if neg then MinusInfinity else PlusInfinity)
      else
        let ip = takeWhile is_digit s;
            s1 = dropWhile is_digit s;
            dot = (case s1 of c # _ \<Rightarrow> c = 0x2E | [] \<Rightarrow> False);
            fp = (if dot then takeWhile is_digit (tl s1) else []);
            s2 = (if dot then dropWhile is_digit (tl s1) else s1)
        in if ip = [] \<and> fp = [] then NaN
           else
             (case lex_exp s2 of
                None \<Rightarrow> NaN
              | Some (e, s3) \<Rightarrow>
                  (if s3 \<noteq> [] then NaN
                   else
                     let m = of_nat (digits_value ip) + of_nat (digits_value fp) / 10 ^ length fp;
                         x = scale10 m e
                     in Finite (if neg then - x else x))))"

definition StringToNumber :: "jsstr \<Rightarrow> js_number" where
  "StringToNumber s =
     (let t = trim_whitespace s in
      if t = [] then Finite 0
      else if take 2 t = [0x30, 0x78] \<or> take 2 t = [0x30, 0x58]
        then NonDecimalIntegerLiteral 16 (drop 2 t)
      else if take 2 t = [0x30, 0x6F] \<or> take 2 t = [0x30, 0x4F]
        then NonDecimalIntegerLiteral 8 (drop 2 t)
      else if take 2 t = [0x30, 0x62] \<or> take 2 t = [0x30, 0x42]
        then NonDecimalIntegerLiteral 2 (drop 2 t)
      else
        (case t of
           c # cs \<Rightarrow>
             (if c = 0x2D then StrUnsignedDecimalLiteral True cs
              else if c = 0x2B then StrUnsignedDecimalLiteral False cs
              else StrUnsignedDecimalLiteral False t)
         | [] \<Rightarrow> Finite 0))"

text \<open>
  The model \<open>AiInsight\<close> is made by mongoose from \<open>aiInsightSchema\<close>. \<open>new AiInsight({...})\<close>
  casts each value to the type of its path, and \<open>save\<close> validates the document and throws
  when a cast or a validator has failed. The library is not part of the repository; what
  follows is its cast to Number and to String, for the values \<open>JSON.parse\<close> can produce.

  Both casts take the \<open>_id\<close> of a value that has one in place of the value.

  Cast to Number: \<open>null\<close> and the empty string give no value; a string or a boolean is
  converted by \<open>Number\<close>; the cast fails on \<open>NaN\<close>, on an array and on an object.
  \<open>castNumber v\<close> is the number as \<open>JNum\<close>, \<open>JNull\<close> for no value, and \<open>v\<close> itself
  when the cast fails or gives an infinity, which the validators \<open>min\<close> and \<open>max\<close> refuse.
\<close>

definition unwrap_id :: "json \<Rightarrow> json" where
  "unwrap_id v = (case member v (js ''_id'') of None \<Rightarrow> v | Some w \<Rightarrow> w)"

definition castNumber :: "json \<Rightarrow> json" where
  "castNumber v =
     (case unwrap_id v of
        JNull \<Rightarrow> JNull
      | JNum x \<Rightarrow> JNum x
      | JBool b \<Rightarrow> JNum (if b then 1 else 0)
      | JStr s \<Rightarrow>
          (if s = [] then JNull
           else case StringToNumber s of Finite x \<Rightarrow> JNum x | _ \<Rightarrow> v)
      | _ \<Rightarrow> v)"

text \<open>
  Cast to String: a string is kept, and so is the \<open>_id\<close> of a value when it is a non-empty
  string; a number or a boolean becomes its text; the cast fails on an array and on an
  object. \<open>castString v\<close> is the string as \<open>JStr\<close> in the first two cases and \<open>v\<close> itself
  otherwise: the text of a number or of a boolean is in no enumeration of the schema.
\<close>

definition castString :: "json \<Rightarrow> json" where
  "castString v =
     (case member v (js ''_id'') of
        Some (JStr s) \<Rightarrow> if s = [] then v else JStr s
      | _ \<Rightarrow> v)"

text \<open>
  What \<open>save\<close> refuses. The model has in full the two paths with a validator that the
  insight builder fills from the payload by a default: \<open>confidence\<close> (required, a number
  from 0 to 100) and \<open>followUpTimeframe\<close> (a string of the enumeration, when there is a
  value). Of \<open>keyFindings\<close> and \<open>riskFactors\<close> it has the enumerations \<open>status\<close> and
  \<open>level\<close>, both required, of the elements that are objects. A refusal for another
  reason (another path, an element that is no object) is part of \<open>throws\<close> below.
\<close>

definition enum_rejects :: "jsstr list \<Rightarrow> json option \<Rightarrow> bool" where
  "enum_rejects allowed v =
     (case v of
        None \<Rightarrow> True
      | Some w \<Rightarrow> (case castString w of JStr s \<Rightarrow> s \<notin> set allowed | _ \<Rightarrow> True))"

definition elements_reject :: "jsstr \<Rightarrow> jsstr list \<Rightarrow> json \<Rightarrow> bool" where
  "elements_reject field allowed v =
     (case v of
        JArr es \<Rightarrow>
          list_ex (\<lambda>e. case e of JObj ms \<Rightarrow> enum_rejects allowed (member e field) | _ \<Rightarrow> False) es
      | _ \<Rightarrow> False)"

definition schema_rejects :: "insight_doc \<Rightarrow> bool" where
  "schema_rejects doc =
     ((case confidence doc of JNum x \<Rightarrow> x < 0 \<or> 100 < x | _ \<Rightarrow> True) \<or>
      (case followUpTimeframe doc of
         JNull \<Rightarrow> False
       | JStr s \<Rightarrow> s \<notin> set timeframes
       | _ \<Rightarrow> True) \<or>
      elements_reject (js ''status'') statuses (keyFindings doc) \<or>
      elements_reject (js ''level'') levels (riskFactors doc))"

definition AiInsight_save :: "bool \<Rightarrow> nat \<Rightarrow> insight_doc \<Rightarrow> db \<Rightarrow> failure + db" where
  "AiInsight_save throws iid doc d =
     (if schema_rejects doc then Inl ValidationError
      else if throws \<or> insights d iid \<noteq> None then Inl DatabaseError
      else Inr (d\<lparr>insights := (insights d)(iid := Some doc)\<rparr>))"

section \<open>Insight Builder and Status Coordinator: \<open>processAIInsight\<close>\<close>

subsection \<open>JavaScript operators\<close>

definition truthy :: "json option \<Rightarrow> bool" where
  "truthy v =
     (case v of
        None \<Rightarrow> False
      | Some JNull \<Rightarrow> False
      | Some (JBool b) \<Rightarrow> b
      | Some (JNum x) \<Rightarrow> x \<noteq> 0
      | Some (JStr s) \<Rightarrow> s \<noteq> []
      | Some (JArr vs) \<Rightarrow> True
      | Some (JObj ms) \<Rightarrow> True)"

text \<open>\<open>a || b\<close>, where \<open>b\<close> is defined.\<close>

definition js_or :: "json option \<Rightarrow> json \<Rightarrow> json" where
  "js_or a b = (case a of None \<Rightarrow> b | Some v \<Rightarrow> if truthy a then v else b)"

text \<open>\<open>a?.k\<close>\<close>

definition opt_member :: "json option \<Rightarrow> jsstr \<Rightarrow> json option" where
  "opt_member a k = (case a of None \<Rightarrow> None | Some JNull \<Rightarrow> None | Some v \<Rightarrow> member v k)"

definition or_not_specified :: "jsstr option \<Rightarrow> jsstr" where
  "or_not_specified x =
     (case x of None \<Rightarrow> js ''Not specified'' | Some s \<Rightarrow> if s = [] then js ''Not specified'' else s)"

subsection \<open>File data\<close>

definition metadata_after_failed_download :: "file_doc \<Rightarrow> jsstr \<Rightarrow> jsstr \<Rightarrow> jsstr" where
  "metadata_after_failed_download file ftype rtype =
     js ''Medical Report Analysis Request:'' @ [0x0A] @
     replicate 16 0x20 @ js ''File: '' @ originalName file @ [0x0A] @
     replicate 16 0x20 @ js ''Type: '' @ ftype @ [0x0A] @
     replicate 16 0x20 @ js ''Report Type: '' @ rtype @ [0x0A] @
     replicate 16 0x20 @ js ''Lab: '' @ or_not_specified (labName file) @ [0x0A] @
     replicate 16 0x20 @ js ''Doctor: '' @ or_not_specified (doctorName file) @ [0x0A] @
     replicate 16 0x20 @ js ''Date: '' @ testDate file @ [0x0A] @
     replicate 16 0x20 @ [0x0A] @
     replicate 16 0x20 @ js ''Note: Could not download image for analysis. Please analyze based on metadata.'' @ [0x0A] @
     replicate 16 0x20 @ [0x0A] @
     replicate 16 0x20 @ js ''Please analyze this medical report and provide insights.''"

definition metadata_text :: "file_doc \<Rightarrow> jsstr \<Rightarrow> jsstr \<Rightarrow> jsstr" where
  "metadata_text file ftype rtype =
     js ''Medical Report Analysis Request:'' @ [0x0A] @
     replicate 12 0x20 @ js ''File: '' @ originalName file @ [0x0A] @
     replicate 12 0x20 @ js ''Type: '' @ ftype @ [0x0A] @
     replicate 12 0x20 @ js ''Report Type: '' @ rtype @ [0x0A] @
     replicate 12 0x20 @ js ''Lab: '' @ or_not_specified (labName file) @ [0x0A] @
     replicate 12 0x20 @ js ''Doctor: '' @ or_not_specified (doctorName file) @ [0x0A] @
     replicate 12 0x20 @ js ''Date: '' @ testDate file @ [0x0A] @
     replicate 12 0x20 @ [0x0A] @
     replicate 12 0x20 @ js ''Please analyze this medical report and provide insights.''"

text \<open>
  \<open>download\<close> is the outcome of the HTTPS request for \<open>file.fileUrl\<close>: the bytes, or
  \<open>None\<close> when it fails (status other than 200, transport error, 30 seconds passed).
\<close>

definition prepare_fileData :: "nat list option \<Rightarrow> file_doc \<Rightarrow> jsstr \<Rightarrow> jsstr \<Rightarrow> file_data" where
  "prepare_fileData download file ftype rtype =
     (if fileType file = js ''image'' then
        (case download of
           Some bytes \<Rightarrow> Buffer bytes
         | None \<Rightarrow> Text (metadata_after_failed_download file ftype rtype))
      else Text (metadata_text file ftype rtype))"

subsection \<open>The insight built from the analysis\<close>

definition empty_bilingual :: json where
  "empty_bilingual = JObj [(js ''english'', JArr []), (js ''urdu'', JArr [])]"

text \<open>
  Reading a property of \<open>analysis\<close> throws a \<open>TypeError\<close> when \<open>analysis\<close> is
  \<open>null\<close>. The constructor casts the value of \<open>confidence\<close> to Number and the value
  of \<open>followUpTimeframe\<close> to String.
\<close>

definition buildInsight ::
  "nat \<Rightarrow> nat \<Rightarrow> file_doc \<Rightarrow> file_data \<Rightarrow> analysis_result \<Rightarrow> failure + insight_doc" where
  "buildInsight fileId userId file fileData geminiResult =
     (let analysis = data geminiResult in
      if analysis = JNull then Inl TypeError
      else Inr
        \<lparr>insight_file = fileId,
         insight_user = userId,
         rawText = (case fileData of
                      Buffer bytes \<Rightarrow> js ''Image file: '' @ originalName file
                    | Text s \<Rightarrow> s),
         summary_english =
           js_or (opt_member (member analysis (js ''summary'')) (js ''english''))
             (js_or (member analysis (js ''summary'')) (JStr (js ''Analysis completed''))),
         summary_urdu =
           js_or (opt_member (member analysis (js ''summary'')) (js ''urdu''))
             (JStr (js ''Roman Urdu summary not available'')),
         keyFindings = js_or (member analysis (js ''keyFindings'')) (JArr []),
         recommendations = js_or (member analysis (js ''recommendations'')) empty_bilingual,
         doctorQuestions = js_or (member analysis (js ''doctorQuestions'')) empty_bilingual,
         riskFactors = js_or (member analysis (js ''riskFactors'')) (JArr []),
         followUpRequired = js_or (member analysis (js ''followUpRequired'')) (JBool False),
         followUpTimeframe =
           castString (js_or (member analysis (js ''followUpTimeframe'')) (JStr (js ''1-month''))),
         confidence = castNumber (js_or (member analysis (js ''confidence'')) (JNum 60)),
         insight_processingTime = processingTime geminiResult,
         insight_model = js ''gemini-1.0-pro''\<rparr>)"

subsection \<open>The pipeline\<close>

text \<open>
  What one run of the pipeline meets: which database calls throw, the download, the
  external model, the clock, and the \<open>_id\<close> of the new insight.
\<close>

record pipeline_env =
  update_processing_throws :: bool
  findById_throws :: bool
  download :: "nat list option"
  generate :: model
  elapsed :: jsnum
  insight_id :: nat
  save_throws :: bool
  update_completed_throws :: bool
  update_failed_throws :: bool

datatype outcome = Returned | Rejected failure

text \<open>
  The \<open>try\<close> block up to the call of \<open>analyzeMedicalReport\<close>. A thrown exception comes
  with the database as it is at that point.
\<close>

definition pipeline_prepare ::
  "pipeline_env \<Rightarrow> nat \<Rightarrow> jsstr \<Rightarrow> jsstr \<Rightarrow> db \<Rightarrow> failure \<times> db + file_doc \<times> file_data \<times> db" where
  "pipeline_prepare env fileId ftype rtype d =
     (case File_findByIdAndUpdate (update_processing_throws env) fileId set_processing d of
        Inl e \<Rightarrow> Inl (e, d)
      | Inr d1 \<Rightarrow>
          (case File_findById (findById_throws env) fileId d1 of
             Inl e \<Rightarrow> Inl (e, d1)
           | Inr None \<Rightarrow> Inl (FileNotFound, d1)
           | Inr (Some file) \<Rightarrow> Inr (file, prepare_fileData (download env) file ftype rtype, d1)))"

text \<open>The \<open>try\<close> block after \<open>analyzeMedicalReport\<close> has returned.\<close>

definition pipeline_persist ::
  "pipeline_env \<Rightarrow> nat \<Rightarrow> nat \<Rightarrow> file_doc \<Rightarrow> file_data \<Rightarrow> analysis_result \<Rightarrow> db
     \<Rightarrow> failure \<times> db + db" where
  "pipeline_persist env fileId userId file fileData geminiResult d =
     (case buildInsight fileId userId file fileData geminiResult of
        Inl e \<Rightarrow> Inl (e, d)
      | Inr doc \<Rightarrow>
          (case AiInsight_save (save_throws env) (insight_id env) doc d of
             Inl e \<Rightarrow> Inl (e, d)
           | Inr d1 \<Rightarrow>
               (case File_findByIdAndUpdate (update_completed_throws env) fileId
                       (set_completed (insight_id env)) d1 of
                  Inl e \<Rightarrow> Inl (e, d1)
                | Inr d2 \<Rightarrow> Inr d2)))"

text \<open>
  The \<open>catch\<close> block. When its own update throws, the promise of \<open>processAIInsight\<close>
  is rejected.
\<close>

definition pipeline_catch :: "pipeline_env \<Rightarrow> nat \<Rightarrow> db \<Rightarrow> outcome \<times> db" where
  "pipeline_catch env fileId d =
     (case File_findByIdAndUpdate (update_failed_throws env) fileId set_failed d of
        Inl e \<Rightarrow> (Rejected e, d)
      | Inr d1 \<Rightarrow> (Returned, d1))"

text \<open>What follows the return of \<open>analyzeMedicalReport\<close>, \<open>catch\<close> block included.\<close>

definition pipeline_finish ::
  "pipeline_env \<Rightarrow> nat \<Rightarrow> nat \<Rightarrow> file_doc \<Rightarrow> file_data \<Rightarrow> analysis_result \<Rightarrow> db
     \<Rightarrow> outcome \<times> db" where
  "pipeline_finish env fileId userId file fileData geminiResult d =
     (case pipeline_persist env fileId userId file fileData geminiResult d of
        Inl (e, d1) \<Rightarrow> pipeline_catch env fileId d1
      | Inr d2 \<Rightarrow> (Returned, d2))"

text \<open>The parameter \<open>filePath\<close> of the source is not used by it and is left out.\<close>

definition processAIInsight ::
  "pipeline_env \<Rightarrow> nat \<Rightarrow> jsstr \<Rightarrow> jsstr \<Rightarrow> nat \<Rightarrow> db \<Rightarrow> outcome \<times> db" where
  "processAIInsight env fileId ftype rtype userId d =
     (case pipeline_prepare env fileId ftype rtype d of
        Inl (e, d1) \<Rightarrow> pipeline_catch env fileId d1
      | Inr (file, fileData, d1) \<Rightarrow>
          pipeline_finish env fileId userId file fileData
            (analyzeMedicalReport (generate env) (elapsed env) fileData ftype rtype) d1)"

section \<open>The routes that start an analysis\<close>

record response =
  code :: nat
  message :: jsstr

subsection \<open>POST /api/files/upload\<close>

text \<open>
  The request after the middleware: the user, the uploaded file, the fields of the body,
  the verdict of the validators, the \<open>_id\<close> of the new document and whether saving it
  throws.
\<close>

record upload_request =
  up_user :: nat
  up_valid :: bool
  up_file_id :: nat
  up_save_throws :: bool
  up_originalName :: jsstr
  up_fileUrl :: jsstr
  up_fileType :: jsstr
  up_reportType :: jsstr
  up_testDate :: jsstr
  up_labName :: "jsstr option"
  up_doctorName :: "jsstr option"

text \<open>The new document, with the defaults of \<open>fileSchema\<close>.\<close>

definition new_file :: "upload_request \<Rightarrow> file_doc" where
  "new_file req =
     \<lparr>owner = up_user req, originalName = up_originalName req, fileUrl = up_fileUrl req,
      fileType = up_fileType req, reportType = up_reportType req, labName = up_labName req,
      doctorName = up_doctorName req, testDate = up_testDate req,
      isProcessed = False, processingStatus = pending, aiInsight = None\<rparr>"

text \<open>
  The route calls \<open>processAIInsight\<close> without awaiting it. In \<open>upload_route\<close> the
  pipeline runs to its end before the next request is taken; this is the route followed on
  its own. The section on requests that overlap has the pipeline as a task that takes its
  steps between those of other requests.
\<close>

definition upload_route :: "pipeline_env \<Rightarrow> upload_request \<Rightarrow> db \<Rightarrow> response \<times> db" where
  "upload_route env req d =
     (if \<not> up_valid req then (\<lparr>code = 400, message = js ''Validation failed''\<rparr>, d)
      else case File_save (up_save_throws req) (up_file_id req) (new_file req) d of
             Inl e \<Rightarrow> (\<lparr>code = 500, message = js ''File upload failed''\<rparr>, d)
           | Inr d1 \<Rightarrow>
               (\<lparr>code = 201, message = js ''File uploaded successfully''\<rparr>,
                snd (processAIInsight env (up_file_id req) (up_fileType req) (up_reportType req)
                       (up_user req) d1)))"

subsection \<open>POST /api/ai/analyze-file/:fileId (src/routes/vitals.js)\<close>

definition sample_keyFindings :: json where
  "sample_keyFindings =
     JArr
      [JObj
        [(js ''parameter'', JStr (js ''Hemoglobin'')),
         (js ''value'', JStr (js ''12.5'')),
         (js ''unit'', JStr (js ''g/dL'')),
         (js ''status'', JStr (js ''normal'')),
         (js ''normalRange'', JStr (js ''12-16 g/dL'')),
         (js ''significance'', JObj
            [(js ''english'', JStr (js ''Within normal range, indicates good oxygen-carrying capacity'')),
             (js ''urdu'', JStr (js ''Normal range mein hai, oxygen carrying capacity acchi hai''))])],
       JObj
        [(js ''parameter'', JStr (js ''Blood Sugar (Fasting)'')),
         (js ''value'', JStr (js ''110'')),
         (js ''unit'', JStr (js ''mg/dL'')),
         (js ''status'', JStr (js ''high'')),
         (js ''normalRange'', JStr (js ''70-100 mg/dL'')),
         (js ''significance'', JObj
            [(js ''english'', JStr (js ''Slightly elevated, may indicate pre-diabetes'')),
             (js ''urdu'', JStr (js ''Thoda high hai, pre-diabetes ka indication ho sakta hai''))])]]"

definition sample_recommendations :: json where
  "sample_recommendations =
     JObj
      [(js ''english'', JArr
          [JStr (js ''Monitor blood sugar levels regularly''),
           JStr (js ''Follow a balanced diet with reduced sugar intake''),
           JStr (js ''Exercise regularly for at least 30 minutes daily''),
           JStr (js ''Schedule follow-up with your doctor in 3 months'')]),
       (js ''urdu'', JArr
          [JStr (js ''Blood sugar levels regular monitor karein''),
           JStr (js ''Balanced diet follow karein with reduced sugar''),
           JStr (js ''Regular exercise karein at least 30 minutes daily''),
           JStr (js ''3 months mein doctor ke saath follow-up schedule karein'')])]"

definition sample_doctorQuestions :: json where
  "sample_doctorQuestions =
     JObj
      [(js ''english'', JArr
          [JStr (js ''Should I be concerned about my blood sugar levels?''),
           JStr (js ''What dietary changes should I make?''),
           JStr (js ''Do I need any additional tests?''),
           JStr (js ''How often should I monitor my blood sugar?'')]),
       (js ''urdu'', JArr
          [JStr (js ''Kya mujhe blood sugar levels ke baare mein concern karna chahiye?''),
           JStr (js ''Kya dietary changes karne chahiye?''),
           JStr (js ''Kya mujhe koi additional tests chahiye?''),
           JStr (js ''Kitni baar blood sugar monitor karna chahiye?'')])]"

definition sample_riskFactors :: json where
  "sample_riskFactors =
     JArr
      [JObj
        [(js ''factor'', JStr (js ''Elevated Blood Sugar'')),
         (js ''level'', JStr (js ''medium'')),
         (js ''description'', JObj
            [(js ''english'', JStr (js ''Slightly elevated blood sugar may indicate pre-diabetes risk'')),
             (js ''urdu'', JStr (js ''Thoda high blood sugar pre-diabetes risk indicate kar sakta hai''))])]]"

text \<open>The insight the route builds: a fixed sample. \<open>took\<close> is \<open>Date.now() - startTime\<close>.\<close>

definition sample_insight :: "nat \<Rightarrow> nat \<Rightarrow> jsnum \<Rightarrow> insight_doc" where
  "sample_insight fileId userId took =
     \<lparr>insight_file = fileId,
      insight_user = userId,
      rawText = js ''Sample extracted text from medical report'',
      summary_english = JStr (js ''This is a comprehensive analysis of your medical report. The results show normal ranges for most parameters with a few areas that may need attention.''),
      summary_urdu = JStr (js ''Ye aapke medical report ka comprehensive analysis hai. Results show karte hain ke most parameters normal range mein hain lekin kuch areas hain jo attention ki zarurat hai.''),
      keyFindings = sample_keyFindings,
      recommendations = sample_recommendations,
      doctorQuestions = sample_doctorQuestions,
      riskFactors = sample_riskFactors,
      followUpRequired = JBool True,
      followUpTimeframe = JStr (js ''3-months''),
      confidence = JNum 88,
      insight_processingTime = took,
      insight_model = js ''gemini-1.5-pro''\<rparr>"

record analyze_env =
  findOne_throws :: bool
  mark_processing_throws :: bool
  took :: jsnum
  new_insight_id :: nat
  insight_save_throws :: bool
  mark_completed_throws :: bool
  mark_failed_throws :: bool

text \<open>
  The \<open>try\<close> block: the response sent, or the exception thrown, each with the database
  as it is then.
\<close>

definition analyze_try :: "analyze_env \<Rightarrow> nat \<Rightarrow> nat \<Rightarrow> db \<Rightarrow> failure \<times> db + response \<times> db" where
  "analyze_try env fileId userId d =
     (case File_findOne (findOne_throws env) fileId userId d of
        Inl e \<Rightarrow> Inl (e, d)
      | Inr None \<Rightarrow> Inr (\<lparr>code = 404, message = js ''File not found''\<rparr>, d)
      | Inr (Some file) \<Rightarrow>
          (if isProcessed file \<and> aiInsight file \<noteq> None
           then Inr (\<lparr>code = 400, message = js ''File already processed''\<rparr>, d)
           else
             (case File_findByIdAndUpdate (mark_processing_throws env) fileId set_processing d of
                Inl e \<Rightarrow> Inl (e, d)
              | Inr d1 \<Rightarrow>
                  (case AiInsight_save (insight_save_throws env) (new_insight_id env)
                          (sample_insight fileId userId (took env)) d1 of
                     Inl e \<Rightarrow> Inl (e, d1)
                   | Inr d2 \<Rightarrow>
                       (case File_findByIdAndUpdate (mark_completed_throws env) fileId
                               (set_completed (new_insight_id env)) d2 of
                          Inl e \<Rightarrow> Inl (e, d2)
                        | Inr d3 \<Rightarrow>
                            Inr (\<lparr>code = 200,
                                  message = js ''AI analysis completed successfully''\<rparr>, d3))))))"

text \<open>
  The route: the \<open>catch\<close> block marks the file of the request as failed and answers 500.
  When that update throws as well, no response is sent.
\<close>

definition analyze_route :: "analyze_env \<Rightarrow> nat \<Rightarrow> nat \<Rightarrow> db \<Rightarrow> response option \<times> db" where
  "analyze_route env fileId userId d =
     (case analyze_try env fileId userId d of
        Inr (res, d1) \<Rightarrow> (Some res, d1)
      | Inl (e, d1) \<Rightarrow>
          (case File_findByIdAndUpdate (mark_failed_throws env) fileId set_failed d1 of
             Inl e' \<Rightarrow> (None, d1)
           | Inr d2 \<Rightarrow> (Some \<lparr>code = 500, message = js ''AI analysis failed''\<rparr>, d2)))"

text \<open>The states the two routes can reach from the empty database, one request after another.\<close>

inductive reachable :: "db \<Rightarrow> bool" where
  reachable_empty: "reachable empty_db"
| reachable_upload: "reachable d \<Longrightarrow> upload_route env req d = (res, d') \<Longrightarrow> reachable d'"
| reachable_analyze:
    "reachable d \<Longrightarrow> analyze_route aenv fileId userId d = (ares, d') \<Longrightarrow> reachable d'"

section \<open>Requests that overlap\<close>

text \<open>
  The route \<open>POST /api/files/upload\<close> calls \<open>processAIInsight\<close> without awaiting it and
  answers at once; the pipeline goes on while other requests are served, and so does the
  route \<open>analyze-file\<close> at each of its \<open>await\<close>s. Here every call of the database is a
  step of its own. What a function computes between two calls touches no document and
  goes with one of the two steps: the download, the external model and the default values
  of the insight are local to the run.
\<close>

subsection \<open>The pipeline, call by call\<close>

text \<open>
  Where a run of \<open>processAIInsight\<close> stands: before the update to \<open>processing\<close>, before
  \<open>File.findById\<close>, before \<open>aiInsight.save()\<close> (the file read, the file data and the
  result of the analysis in hand), before the update to \<open>completed\<close>, in the \<open>catch\<close>
  block before its update, or at its end.
\<close>

datatype pipeline_stage =
    P_mark
  | P_find
  | P_save file_doc file_data analysis_result
  | P_link
  | P_catch
  | P_done outcome

definition pipeline_step ::
  "pipeline_env \<Rightarrow> nat \<Rightarrow> jsstr \<Rightarrow> jsstr \<Rightarrow> nat \<Rightarrow> pipeline_stage \<Rightarrow> db \<Rightarrow> pipeline_stage \<times> db" where
  "pipeline_step env fileId ftype rtype userId stage d =
     (case stage of
        P_mark \<Rightarrow>
          (case File_findByIdAndUpdate (update_processing_throws env) fileId set_processing d of
             Inl e \<Rightarrow> (P_catch, d)
           | Inr d1 \<Rightarrow> (P_find, d1))
      | P_find \<Rightarrow>
          (case File_findById (findById_throws env) fileId d of
             Inl e \<Rightarrow> (P_catch, d)
           | Inr None \<Rightarrow> (P_catch, d)
           | Inr (Some file) \<Rightarrow>
               (P_save file (prepare_fileData (download env) file ftype rtype)
                  (analyzeMedicalReport (generate env) (elapsed env)
                     (prepare_fileData (download env) file ftype rtype) ftype rtype), d))
      | P_save file fileData geminiResult \<Rightarrow>
          (case buildInsight fileId userId file fileData geminiResult of
             Inl e \<Rightarrow> (P_catch, d)
           | Inr doc \<Rightarrow>
               (case AiInsight_save (save_throws env) (insight_id env) doc d of
                  Inl e \<Rightarrow> (P_catch, d)
                | Inr d1 \<Rightarrow> (P_link, d1)))
      | P_link \<Rightarrow>
          (case File_findByIdAndUpdate (update_completed_throws env) fileId
                  (set_completed (insight_id env)) d of
             Inl e \<Rightarrow> (P_catch, d)
           | Inr d1 \<Rightarrow> (P_done Returned, d1))
      | P_catch \<Rightarrow>
          (case File_findByIdAndUpdate (update_failed_throws env) fileId set_failed d of
             Inl e \<Rightarrow> (P_done (Rejected e), d)
           | Inr d1 \<Rightarrow> (P_done Returned, d1))
      | P_done r \<Rightarrow> (P_done r, d))"

subsection \<open>The route \<open>analyze-file\<close>, call by call\<close>

text \<open>
  Where a request stands: before \<open>File.findOne\<close>, before the update to \<open>processing\<close>,
  before \<open>aiInsight.save()\<close>, before the update to \<open>completed\<close>, in the \<open>catch\<close> block
  before its update, or answered (with no response when the \<open>catch\<close> block throws).
  The check of \<open>isProcessed\<close> goes with the lookup: it reads the document the lookup
  returned.
\<close>

datatype analyze_stage =
    A_lookup
  | A_mark
  | A_save
  | A_link
  | A_catch
  | A_done "response option"

definition analyze_step ::
  "analyze_env \<Rightarrow> nat \<Rightarrow> nat \<Rightarrow> analyze_stage \<Rightarrow> db \<Rightarrow> analyze_stage \<times> db" where
  "analyze_step env fileId userId stage d =
     (case stage of
        A_lookup \<Rightarrow>
          (case File_findOne (findOne_throws env) fileId userId d of
             Inl e \<Rightarrow> (A_catch, d)
           | Inr None \<Rightarrow> (A_done (Some \<lparr>code = 404, message = js ''File not found''\<rparr>), d)
           | Inr (Some file) \<Rightarrow>
               (if isProcessed file \<and> aiInsight file \<noteq> None
                then (A_done (Some \<lparr>code = 400, message = js ''File already processed''\<rparr>), d)
                else (A_mark, d)))
      | A_mark \<Rightarrow>
          (case File_findByIdAndUpdate (mark_processing_throws env) fileId set_processing d of
             Inl e \<Rightarrow> (A_catch, d)
           | Inr d1 \<Rightarrow> (A_save, d1))
      | A_save \<Rightarrow>
          (case AiInsight_save (insight_save_throws env) (new_insight_id env)
                  (sample_insight fileId userId (took env)) d of
             Inl e \<Rightarrow> (A_catch, d)
           | Inr d1 \<Rightarrow> (A_link, d1))
      | A_link \<Rightarrow>
          (case File_findByIdAndUpdate (mark_completed_throws env) fileId
                  (set_completed (new_insight_id env)) d of
             Inl e \<Rightarrow> (A_catch, d)
           | Inr d1 \<Rightarrow>
               (A_done (Some \<lparr>code = 200, message = js ''AI analysis completed successfully''\<rparr>),
                d1))
      | A_catch \<Rightarrow>
          (case File_findByIdAndUpdate (mark_failed_throws env) fileId set_failed d of
             Inl e \<Rightarrow> (A_done None, d)
           | Inr d1 \<Rightarrow> (A_done (Some \<lparr>code = 500, message = js ''AI analysis failed''\<rparr>), d1))
      | A_done r \<Rightarrow> (A_done r, d))"

subsection \<open>The server\<close>

text \<open>
  What is under way in the server: runs of the pipeline and requests to analyse a file,
  each with its arguments and the place where it stands.
\<close>

datatype task =
    Pipeline pipeline_env nat jsstr jsstr nat pipeline_stage
  | Analysis analyze_env nat nat analyze_stage

fun task_step :: "task \<Rightarrow> db \<Rightarrow> task \<times> db" where
  "task_step (Pipeline env fileId ftype rtype userId stage) d =
     (case pipeline_step env fileId ftype rtype userId stage d of
        (stage', d') \<Rightarrow> (Pipeline env fileId ftype rtype userId stage', d'))"
| "task_step (Analysis env fileId userId stage) d =
     (case analyze_step env fileId userId stage d of
        (stage', d') \<Rightarrow> (Analysis env fileId userId stage', d'))"

record server =
  store :: db
  tasks :: "task list"

definition idle :: server where
  "idle = \<lparr>store = empty_db, tasks = []\<rparr>"

text \<open>
  What happens next: an upload arrives (the document is saved and its pipeline starts), a
  request to analyse a file arrives, or the task at some position takes its next step.
  These are the three ways in which the processing fields of a file are written; the
  routes that change the description of a file or delete it are no events here.
\<close>

datatype event = Upload pipeline_env upload_request | Request analyze_env nat nat | Step nat

fun happen :: "server \<Rightarrow> event \<Rightarrow> server" where
  "happen s (Upload env req) =
     (if \<not> up_valid req then s
      else case File_save (up_save_throws req) (up_file_id req) (new_file req) (store s) of
             Inl e \<Rightarrow> s
           | Inr d1 \<Rightarrow>
               \<lparr>store = d1,
                tasks = tasks s @ [Pipeline env (up_file_id req) (up_fileType req)
                                     (up_reportType req) (up_user req) P_mark]\<rparr>)"
| "happen s (Request env fileId userId) =
     \<lparr>store = store s, tasks = tasks s @ [Analysis env fileId userId A_lookup]\<rparr>"
| "happen s (Step i) =
     (if i < length (tasks s)
      then case task_step (tasks s ! i) (store s) of
             (t', d') \<Rightarrow> \<lparr>store = d', tasks = (tasks s)[i := t']\<rparr>
      else s)"

definition schedule :: "event list \<Rightarrow> server" where
  "schedule es = foldl happen idle es"

text \<open>The states of the server that some sequence of events leads to.\<close>

inductive interleaved :: "server \<Rightarrow> bool" where
  interleaved_idle: "interleaved idle"
| interleaved_happen: "interleaved s \<Longrightarrow> interleaved (happen s e)"

text \<open>\<open>run n t d\<close>: the task \<open>t\<close> takes \<open>n\<close> steps with no other task in between.\<close>

fun run :: "nat \<Rightarrow> task \<Rightarrow> db \<Rightarrow> task \<times> db" where
  "run 0 t d = (t, d)"
| "run (Suc n) t d = (case task_step t d of (t', d') \<Rightarrow> run n t' d')"

section \<open>Properties of the status machine\<close>

subsection \<open>What holds in every state the routes reach one after another\<close>

text \<open>
  \<open>no_reprocess\<close>: once \<open>completed\<close> has been written for a file, \<open>processing\<close> is
  never written for it again.
\<close>

fun no_reprocess :: "status list \<Rightarrow> bool" where
  "no_reprocess [] = True"
| "no_reprocess (s # ss) = ((if s = completed then processing \<notin> set ss else True) \<and> no_reprocess ss)"

definition consistent :: "db \<Rightarrow> bool" where
  "consistent d \<longleftrightarrow>
     (\<forall>fid f. files d fid = Some f \<and> isProcessed f \<longrightarrow> aiInsight f \<noteq> None) \<and>
     (\<forall>fid. files d fid = None \<longrightarrow> status_history d fid = []) \<and>
     (\<forall>fid. completed \<in> set (status_history d fid) \<longrightarrow>
        (\<exists>f. files d fid = Some f \<and> isProcessed f)) \<and>
     (\<forall>fid. no_reprocess (status_history d fid))"

lemma no_reprocess_snoc:
  "no_reprocess (xs @ [s]) \<longleftrightarrow> no_reprocess xs \<and> (s = processing \<longrightarrow> completed \<notin> set xs)"
  by (induction xs) auto

lemma status_history_append:
  "status_history (d\<lparr>history := history d @ [(fid, s)]\<rparr>) fid'
     = (if fid' = fid then status_history d fid @ [s] else status_history d fid')"
  by (simp add: status_history_def)

lemma status_history_files_update [simp]:
  "status_history (d\<lparr>files := x\<rparr>) fid = status_history d fid"
  by (simp add: status_history_def)

lemma status_history_insights_update [simp]:
  "status_history (d\<lparr>insights := x\<rparr>) fid = status_history d fid"
  by (simp add: status_history_def)

lemma consistent_empty: "consistent empty_db"
  by (simp add: consistent_def empty_db_def status_history_def)

lemma consistent_insights: "consistent (d\<lparr>insights := x\<rparr>) = consistent d"
  by (simp add: consistent_def)

lemma consistent_write:
  assumes c: "consistent d"
    and ex: "files d fid = Some f \<or> (files d fid = None \<and> \<not> isProcessed g)"
    and p: "processingStatus g = processing \<longrightarrow> completed \<notin> set (status_history d fid)"
    and i: "isProcessed g \<longrightarrow> aiInsight g \<noteq> None"
    and m: "completed \<in> set (status_history d fid) \<longrightarrow> isProcessed g"
    and k: "processingStatus g = completed \<longrightarrow> isProcessed g"
  shows "consistent (d\<lparr>files := (files d)(fid := Some g),
            history := history d @ [(fid, processingStatus g)]\<rparr>)"
proof -
  let ?d = "d\<lparr>files := (files d)(fid := Some g), history := history d @ [(fid, processingStatus g)]\<rparr>"
  have h: "status_history ?d fid' = (if fid' = fid then status_history d fid @ [processingStatus g]
      else status_history d fid')" for fid'
    by (simp add: status_history_def)
  have 1: "\<forall>fid' f'. files ?d fid' = Some f' \<and> isProcessed f' \<longrightarrow> aiInsight f' \<noteq> None"
    using c i by (auto simp: consistent_def)
  have 2: "\<forall>fid'. files ?d fid' = None \<longrightarrow> status_history ?d fid' = []"
    using c by (auto simp: consistent_def h)
  have 3: "\<forall>fid'. completed \<in> set (status_history ?d fid') \<longrightarrow>
      (\<exists>f'. files ?d fid' = Some f' \<and> isProcessed f')"
    using c m k by (auto simp: consistent_def h)
  have 4: "\<forall>fid'. no_reprocess (status_history ?d fid')"
    using c p by (auto simp: consistent_def h no_reprocess_snoc)
  from 1 2 3 4 show ?thesis unfolding consistent_def by blast
qed

lemma consistent_unprocessed:
  "consistent d \<Longrightarrow> files d fid = Some f \<Longrightarrow> \<not> isProcessed f \<Longrightarrow>
     completed \<notin> set (status_history d fid)"
  by (auto simp: consistent_def)

lemma consistent_processed:
  "consistent d \<Longrightarrow> files d fid = Some f \<Longrightarrow> isProcessed f \<Longrightarrow> aiInsight f \<noteq> None"
  by (auto simp: consistent_def)

lemma update_failed_consistent:
  assumes "consistent d" and "File_findByIdAndUpdate th fid set_failed d = Inr d'"
  shows "consistent d'"
proof (cases "files d fid")
  case None
  with assms show ?thesis by (simp add: File_findByIdAndUpdate_def split: if_splits)
next
  case (Some f)
  have "consistent (d\<lparr>files := (files d)(fid := Some (set_failed f)),
      history := history d @ [(fid, processingStatus (set_failed f))]\<rparr>)"
    using assms(1) Some
    by (intro consistent_write [where f = f]) (auto simp: set_failed_def consistent_def)
  with assms(2) Some show ?thesis
    by (simp add: File_findByIdAndUpdate_def split: if_splits)
qed

lemma update_completed_consistent:
  assumes "consistent d" and "File_findByIdAndUpdate th fid (set_completed iid) d = Inr d'"
  shows "consistent d'"
proof (cases "files d fid")
  case None
  with assms show ?thesis by (simp add: File_findByIdAndUpdate_def split: if_splits)
next
  case (Some f)
  have "consistent (d\<lparr>files := (files d)(fid := Some (set_completed iid f)),
      history := history d @ [(fid, processingStatus (set_completed iid f))]\<rparr>)"
    using assms(1) Some
    by (intro consistent_write [where f = f]) (auto simp: set_completed_def)
  with assms(2) Some show ?thesis
    by (simp add: File_findByIdAndUpdate_def split: if_splits)
qed

lemma update_processing_consistent:
  assumes "consistent d" and "File_findByIdAndUpdate th fid set_processing d = Inr d'"
    and "\<And>f. files d fid = Some f \<Longrightarrow> \<not> isProcessed f"
  shows "consistent d'"
proof (cases "files d fid")
  case None
  with assms show ?thesis by (simp add: File_findByIdAndUpdate_def split: if_splits)
next
  case (Some f)
  have np: "\<not> isProcessed f" using assms(3) Some by simp
  have nc: "completed \<notin> set (status_history d fid)"
    using assms(1) Some np by (rule consistent_unprocessed)
  have "consistent (d\<lparr>files := (files d)(fid := Some (set_processing f)),
      history := history d @ [(fid, processingStatus (set_processing f))]\<rparr>)"
    using assms(1) Some np nc
    by (intro consistent_write [where f = f]) (auto simp: set_processing_def)
  with assms(2) Some show ?thesis
    by (simp add: File_findByIdAndUpdate_def split: if_splits)
qed

lemma update_processing_unprocessed:
  assumes "File_findByIdAndUpdate th fid set_processing d = Inr d'"
    and "\<And>f. files d fid = Some f \<Longrightarrow> \<not> isProcessed f"
  shows "files d' fid = Some f' \<Longrightarrow> \<not> isProcessed f'"
  using assms
  by (cases "files d fid") (auto simp: File_findByIdAndUpdate_def set_processing_def split: if_splits)

lemma save_consistent:
  "consistent d \<Longrightarrow> AiInsight_save th iid doc d = Inr d' \<Longrightarrow> consistent d'"
  by (auto simp: AiInsight_save_def consistent_insights split: if_splits)

lemma File_save_consistent:
  assumes "consistent d" and "File_save th fid (new_file req) d = Inr d'"
  shows "consistent d' \<and> (\<forall>f. files d' fid = Some f \<longrightarrow> \<not> isProcessed f)"
proof -
  from assms(2) have n: "files d fid = None"
    and d': "d' = d\<lparr>files := (files d)(fid := Some (new_file req)),
      history := history d @ [(fid, processingStatus (new_file req))]\<rparr>"
    by (auto simp: File_save_def split: if_splits)
  have "status_history d fid = []" using assms(1) n by (simp add: consistent_def)
  then have "consistent (d\<lparr>files := (files d)(fid := Some (new_file req)),
      history := history d @ [(fid, processingStatus (new_file req))]\<rparr>)"
    using assms(1) n by (intro consistent_write [where f = "new_file req"]) (auto simp: new_file_def)
  with d' show ?thesis by (simp add: new_file_def)
qed

lemma pipeline_catch_consistent:
  "consistent d \<Longrightarrow> consistent (snd (pipeline_catch env fid d))"
  by (auto simp: pipeline_catch_def split: sum.splits dest: update_failed_consistent)

lemma pipeline_persist_consistent:
  assumes "consistent d"
  shows "pipeline_persist env fid uid file fd g d = Inl (e, d') \<Longrightarrow> consistent d'"
    and "pipeline_persist env fid uid file fd g d = Inr d' \<Longrightarrow> consistent d'"
  using assms
  by (auto simp: pipeline_persist_def split: sum.splits
      dest: save_consistent update_completed_consistent)

lemma pipeline_finish_consistent:
  "consistent d \<Longrightarrow> consistent (snd (pipeline_finish env fid uid file fd g d))"
  by (auto simp: pipeline_finish_def split: sum.splits prod.splits
      dest: pipeline_persist_consistent intro: pipeline_catch_consistent)

lemma pipeline_prepare_consistent:
  assumes "consistent d" and "\<And>f. files d fid = Some f \<Longrightarrow> \<not> isProcessed f"
  shows "pipeline_prepare env fid ft rt d = Inl (e, d') \<Longrightarrow> consistent d'"
    and "pipeline_prepare env fid ft rt d = Inr (file, fd, d') \<Longrightarrow> consistent d'"
  using assms
  by (auto simp: pipeline_prepare_def split: sum.splits option.splits
      dest: update_processing_consistent)

lemma processAIInsight_consistent:
  assumes "consistent d" and "\<And>f. files d fid = Some f \<Longrightarrow> \<not> isProcessed f"
  shows "consistent (snd (processAIInsight env fid ft rt uid d))"
proof (cases "pipeline_prepare env fid ft rt d")
  case (Inl a)
  obtain e d1 where a: "a = (e, d1)" by (cases a)
  with Inl assms have "consistent d1" using pipeline_prepare_consistent(1) by blast
  with Inl a show ?thesis by (simp add: processAIInsight_def pipeline_catch_consistent)
next
  case (Inr b)
  obtain fl fd d1 where b: "b = (fl, fd, d1)" by (cases b)
  with Inr assms have "consistent d1" using pipeline_prepare_consistent(2) by blast
  with Inr b show ?thesis by (simp add: processAIInsight_def pipeline_finish_consistent)
qed

lemma upload_route_consistent:
  assumes "consistent d"
  shows "consistent (snd (upload_route env req d))"
proof (cases "up_valid req")
  case False
  with assms show ?thesis by (simp add: upload_route_def)
next
  case True
  show ?thesis
  proof (cases "File_save (up_save_throws req) (up_file_id req) (new_file req) d")
    case (Inl e)
    with True assms show ?thesis by (simp add: upload_route_def)
  next
    case (Inr d1)
    from File_save_consistent [OF assms Inr]
    have "consistent d1" and "\<And>f. files d1 (up_file_id req) = Some f \<Longrightarrow> \<not> isProcessed f"
      by auto
    then have "consistent (snd (processAIInsight env (up_file_id req) (up_fileType req)
        (up_reportType req) (up_user req) d1))"
      by (rule processAIInsight_consistent)
    with True Inr show ?thesis by (simp add: upload_route_def)
  qed
qed

lemma analyze_try_stages:
  assumes "analyze_try env fid uid d = r"
  shows "(\<exists>x. r = Inl (x, d)) \<or> (\<exists>x. r = Inr (x, d)) \<or>
     (\<exists>fl d1. files d fid = Some fl \<and> \<not> (isProcessed fl \<and> aiInsight fl \<noteq> None) \<and>
        File_findByIdAndUpdate (mark_processing_throws env) fid set_processing d = Inr d1 \<and>
        ((\<exists>x. r = Inl (x, d1)) \<or>
         (\<exists>d2. AiInsight_save (insight_save_throws env) (new_insight_id env)
                  (sample_insight fid uid (took env)) d1 = Inr d2 \<and>
            ((\<exists>x. r = Inl (x, d2)) \<or>
             (\<exists>x d3. File_findByIdAndUpdate (mark_completed_throws env) fid
                  (set_completed (new_insight_id env)) d2 = Inr d3 \<and> r = Inr (x, d3))))))"
  using assms
  by (auto simp: analyze_try_def File_findOne_def split: sum.splits option.splits if_splits)

lemma analyze_try_consistent:
  assumes c: "consistent d" and r: "analyze_try env fid uid d = r"
    and d': "r = Inl (e, d') \<or> r = Inr (res, d')"
  shows "consistent d'"
proof -
  from analyze_try_stages [OF r]
  consider (same) "d' = d"
    | (staged) fl d1 where "files d fid = Some fl" "\<not> (isProcessed fl \<and> aiInsight fl \<noteq> None)"
        "File_findByIdAndUpdate (mark_processing_throws env) fid set_processing d = Inr d1"
        "d' = d1 \<or> (\<exists>d2. AiInsight_save (insight_save_throws env) (new_insight_id env)
                  (sample_insight fid uid (took env)) d1 = Inr d2 \<and>
            (d' = d2 \<or> File_findByIdAndUpdate (mark_completed_throws env) fid
                  (set_completed (new_insight_id env)) d2 = Inr d'))"
    using d' by auto
  then show ?thesis
  proof cases
    case same
    with c show ?thesis by simp
  next
    case staged
    have c1: "consistent d1"
    proof (rule update_processing_consistent [OF c staged(3)])
      fix f assume "files d fid = Some f"
      with staged(1) have "f = fl" by simp
      with staged(1,2) consistent_processed [OF c, of fid fl] show "\<not> isProcessed f" by auto
    qed
    from staged(4) show ?thesis
    proof
      assume "d' = d1"
      with c1 show ?thesis by simp
    next
      assume "\<exists>d2. AiInsight_save (insight_save_throws env) (new_insight_id env)
                  (sample_insight fid uid (took env)) d1 = Inr d2 \<and>
            (d' = d2 \<or> File_findByIdAndUpdate (mark_completed_throws env) fid
                  (set_completed (new_insight_id env)) d2 = Inr d')"
      then obtain d2 where s: "AiInsight_save (insight_save_throws env) (new_insight_id env)
                  (sample_insight fid uid (took env)) d1 = Inr d2"
        and t: "d' = d2 \<or> File_findByIdAndUpdate (mark_completed_throws env) fid
                  (set_completed (new_insight_id env)) d2 = Inr d'" by blast
      from c1 s have c2: "consistent d2" by (rule save_consistent)
      from t show ?thesis
      proof
        assume "d' = d2"
        with c2 show ?thesis by simp
      next
        assume "File_findByIdAndUpdate (mark_completed_throws env) fid
                  (set_completed (new_insight_id env)) d2 = Inr d'"
        with c2 show ?thesis by (rule update_completed_consistent)
      qed
    qed
  qed
qed

lemma analyze_route_consistent:
  assumes "consistent d"
  shows "consistent (snd (analyze_route env fid uid d))"
proof (cases "analyze_try env fid uid d")
  case (Inl a)
  obtain e d1 where a: "a = (e, d1)" by (cases a)
  with Inl assms have "consistent d1" using analyze_try_consistent by blast
  with Inl a show ?thesis
    by (auto simp: analyze_route_def split: sum.splits dest: update_failed_consistent)
next
  case (Inr b)
  obtain res d1 where b: "b = (res, d1)" by (cases b)
  with Inr assms have "consistent d1" using analyze_try_consistent by blast
  with Inr b show ?thesis by (simp add: analyze_route_def)
qed

lemma reachable_consistent: "reachable d \<Longrightarrow> consistent d"
proof (induction rule: reachable.induct)
  case reachable_empty
  show ?case by (rule consistent_empty)
next
  case (reachable_upload d env req res d')
  then show ?case using upload_route_consistent [of d env req] by simp
next
  case (reachable_analyze d aenv fileId userId ares d')
  then show ?case using analyze_route_consistent [of d aenv fileId userId] by simp
qed

subsection \<open>The stages of the pipeline, one by one\<close>

lemma pipeline_prepare_found:
  assumes "\<not> update_processing_throws env" and "\<not> findById_throws env"
    and "files d fid = Some f"
  shows "pipeline_prepare env fid ft rt d
    = Inr (set_processing f, prepare_fileData (download env) (set_processing f) ft rt,
        d\<lparr>files := (files d)(fid := Some (set_processing f)),
          history := history d @ [(fid, processing)]\<rparr>)"
  using assms
  by (simp add: pipeline_prepare_def File_findByIdAndUpdate_def File_findById_def
      set_processing_def)

lemma pipeline_finish_linked:
  assumes "buildInsight fid uid fl fd g = Inr doc"
    and "\<not> schema_rejects doc" and "\<not> save_throws env" and "insights d (insight_id env) = None"
    and "\<not> update_completed_throws env" and "files d fid = Some f"
  shows "pipeline_finish env fid uid fl fd g d
    = (Returned,
       d\<lparr>insights := (insights d)(insight_id env := Some doc),
         files := (files d)(fid := Some (set_completed (insight_id env) f)),
         history := history d @ [(fid, completed)]\<rparr>)"
  using assms
  by (simp add: pipeline_finish_def pipeline_persist_def AiInsight_save_def
      File_findByIdAndUpdate_def set_completed_def)

lemma pipeline_finish_not_saved:
  assumes "buildInsight fid uid fl fd g = Inr doc"
    and "schema_rejects doc \<or> save_throws env \<or> insights d (insight_id env) \<noteq> None"
    and "\<not> update_failed_throws env" and "files d fid = Some f"
  shows "pipeline_finish env fid uid fl fd g d
    = (Returned,
       d\<lparr>files := (files d)(fid := Some (set_failed f)),
         history := history d @ [(fid, failed)]\<rparr>)"
  using assms
  by (auto simp: pipeline_finish_def pipeline_persist_def pipeline_catch_def AiInsight_save_def
      File_findByIdAndUpdate_def set_failed_def)

lemma pipeline_finish_unlinked:
  assumes "buildInsight fid uid fl fd g = Inr doc"
    and "\<not> schema_rejects doc" and "\<not> save_throws env" and "insights d (insight_id env) = None"
    and "update_completed_throws env" and "\<not> update_failed_throws env"
    and "files d fid = Some f"
  shows "pipeline_finish env fid uid fl fd g d
    = (Returned,
       d\<lparr>insights := (insights d)(insight_id env := Some doc),
         files := (files d)(fid := Some (set_failed f)),
         history := history d @ [(fid, failed)]\<rparr>)"
  using assms
  by (simp add: pipeline_finish_def pipeline_persist_def pipeline_catch_def AiInsight_save_def
      File_findByIdAndUpdate_def set_failed_def)

lemma analyzeMedicalReport_text_reply:
  assumes "ft \<noteq> js ''image''" and "g \<lparr>prompt_fileType = ft, prompt_reportType = rt,
      part = Appended fd\<rparr> = Inr reply"
  shows "analyzeMedicalReport g el fd ft rt
    = \<lparr>success = True, data = parseGeminiResponse reply, processingTime = el, fallback = False\<rparr>"
  using assms by (simp add: analyzeMedicalReport_def analyze_attempt_def)

lemma parseGeminiResponse_confidence_150:
  \<open>parseGeminiResponse (js ''{"confidence":150}'') = JObj [(js ''confidence'', JNum 150)]\<close>
  by (simp add: parseGeminiResponse_def jsonMatch_confidence_150 JSON_parse_confidence_150)

lemma castNumber_JNum: "castNumber (JNum x) = JNum x"
  by (simp add: castNumber_def unwrap_id_def member_def)

lemma castString_JStr: "castString (JStr s) = JStr s"
  by (simp add: castString_def member_def)

lemma member_only_confidence:
  "member (JObj [(js ''confidence'', v)]) (js ''confidence'') = Some v"
  "member (JObj [(js ''confidence'', v)]) (js ''summary'') = None"
  "member (JObj [(js ''confidence'', v)]) (js ''keyFindings'') = None"
  "member (JObj [(js ''confidence'', v)]) (js ''recommendations'') = None"
  "member (JObj [(js ''confidence'', v)]) (js ''doctorQuestions'') = None"
  "member (JObj [(js ''confidence'', v)]) (js ''riskFactors'') = None"
  "member (JObj [(js ''confidence'', v)]) (js ''followUpRequired'') = None"
  "member (JObj [(js ''confidence'', v)]) (js ''followUpTimeframe'') = None"
  by (simp_all add: member_def js_def)

text \<open>The insight built from a payload that has a confidence and nothing else.\<close>

definition bare_insight :: "nat \<Rightarrow> nat \<Rightarrow> jsstr \<Rightarrow> jsnum \<Rightarrow> jsnum \<Rightarrow> insight_doc" where
  "bare_insight fid uid raw x el =
     \<lparr>insight_file = fid, insight_user = uid, rawText = raw,
      summary_english = JStr (js ''Analysis completed''),
      summary_urdu = JStr (js ''Roman Urdu summary not available''),
      keyFindings = JArr [], recommendations = empty_bilingual,
      doctorQuestions = empty_bilingual, riskFactors = JArr [],
      followUpRequired = JBool False, followUpTimeframe = JStr (js ''1-month''),
      confidence = JNum x, insight_processingTime = el, insight_model = js ''gemini-1.0-pro''\<rparr>"

lemma buildInsight_only_confidence:
  assumes "x \<noteq> 0"
  shows "buildInsight fid uid fl (Text raw)
      \<lparr>success = True, data = JObj [(js ''confidence'', JNum x)], processingTime = el,
        fallback = False\<rparr>
    = Inr (bare_insight fid uid raw x el)"
  using assms
  by (simp add: buildInsight_def member_only_confidence js_or_def opt_member_def truthy_def
      bare_insight_def castNumber_JNum castString_JStr)

lemma schema_rejects_bare_insight:
  "schema_rejects (bare_insight fid uid raw x el) \<longleftrightarrow> x < 0 \<or> 100 < x"
  by (simp add: schema_rejects_def bare_insight_def timeframes_def elements_reject_def js_def)

subsection \<open>One upload, followed to its end\<close>

text \<open>
  An upload that is accepted, of a file that is no image, when the two database calls that
  open the pipeline succeed and the external model answers with a block that holds only a
  confidence: the pipeline reaches the point where the insight is built.
\<close>

lemma upload_route_reaches_builder:
  assumes "up_valid req" and "\<not> up_save_throws req" and "files d (up_file_id req) = None"
    and "\<not> update_processing_throws env" and "\<not> findById_throws env"
    and "up_fileType req \<noteq> js ''image''"
    and "generate env = (\<lambda>r. Inr reply)"
    and "parseGeminiResponse reply = JObj [(js ''confidence'', JNum x)]"
  shows "upload_route env req d
    = (\<lparr>code = 201, message = js ''File uploaded successfully''\<rparr>,
       snd (pipeline_finish env (up_file_id req) (up_user req) (set_processing (new_file req))
         (Text (metadata_text (set_processing (new_file req)) (up_fileType req) (up_reportType req)))
         \<lparr>success = True, data = JObj [(js ''confidence'', JNum x)],
           processingTime = elapsed env, fallback = False\<rparr>
         \<lparr>files = (files d)(up_file_id req := Some (set_processing (new_file req))),
           insights = insights d,
           history = history d @ [(up_file_id req, pending), (up_file_id req, processing)]\<rparr>))"
proof -
  let ?fid = "up_file_id req"
  let ?d1 = "d\<lparr>files := (files d)(?fid := Some (new_file req)),
                history := history d @ [(?fid, pending)]\<rparr>"
  let ?f = "set_processing (new_file req)"
  let ?d2 = "\<lparr>files = (files d)(?fid := Some ?f), insights = insights d,
              history = history d @ [(?fid, pending), (?fid, processing)]\<rparr>"
  let ?fd = "Text (metadata_text ?f (up_fileType req) (up_reportType req))"
  have s: "File_save (up_save_throws req) ?fid (new_file req) d = Inr ?d1"
    using assms(2,3) by (simp add: File_save_def new_file_def)
  have "pipeline_prepare env ?fid (up_fileType req) (up_reportType req) ?d1
      = Inr (?f, prepare_fileData (download env) ?f (up_fileType req) (up_reportType req),
          ?d1\<lparr>files := (files ?d1)(?fid := Some ?f), history := history ?d1 @ [(?fid, processing)]\<rparr>)"
    using assms(4,5) by (intro pipeline_prepare_found) simp_all
  moreover have "prepare_fileData (download env) ?f (up_fileType req) (up_reportType req) = ?fd"
    using assms(6) by (simp add: prepare_fileData_def set_processing_def new_file_def)
  moreover have "?d1\<lparr>files := (files ?d1)(?fid := Some ?f),
      history := history ?d1 @ [(?fid, processing)]\<rparr> = ?d2"
    by simp
  ultimately have p: "pipeline_prepare env ?fid (up_fileType req) (up_reportType req) ?d1
      = Inr (?f, ?fd, ?d2)"
    by simp
  have a: "analyzeMedicalReport (generate env) (elapsed env) ?fd (up_fileType req) (up_reportType req)
      = \<lparr>success = True, data = JObj [(js ''confidence'', JNum x)],
         processingTime = elapsed env, fallback = False\<rparr>"
    using assms(6,7,8) by (simp add: analyzeMedicalReport_text_reply)
  show ?thesis
    using assms(1) by (simp add: upload_route_def s processAIInsight_def p a)
qed

text \<open>A report uploaded by user 7 as file 1, and an environment without faults.\<close>

definition report_upload :: upload_request where
  "report_upload =
     \<lparr>up_user = 7, up_valid = True, up_file_id = 1, up_save_throws = False,
      up_originalName = js ''report.pdf'', up_fileUrl = js ''https://files.example/report.pdf'',
      up_fileType = js ''pdf'', up_reportType = js ''blood-test'',
      up_testDate = js ''2024-01-15'', up_labName = None, up_doctorName = None\<rparr>"

definition model_answers :: "jsstr \<Rightarrow> pipeline_env" where
  "model_answers reply =
     \<lparr>update_processing_throws = False, findById_throws = False, download = None,
      generate = (\<lambda>r. Inr reply), elapsed = 1500, insight_id = 10, save_throws = False,
      update_completed_throws = False, update_failed_throws = False\<rparr>"

definition no_faults :: analyze_env where
  "no_faults =
     \<lparr>findOne_throws = False, mark_processing_throws = False, took = 3000,
      new_insight_id = 11, insight_save_throws = False, mark_completed_throws = False,
      mark_failed_throws = False\<rparr>"

definition report_file :: file_doc where
  "report_file = set_processing (new_file report_upload)"

definition report_text :: jsstr where
  "report_text = metadata_text report_file (js ''pdf'') (js ''blood-test'')"

lemma report_file_fields:
  "owner report_file = 7" "isProcessed report_file = False" "aiInsight report_file = None"
  "processingStatus report_file = processing"
  by (simp_all add: report_file_def set_processing_def new_file_def report_upload_def)

lemma pdf_is_no_image: "js ''pdf'' \<noteq> js ''image''"
  by (simp add: js_def)

lemma parseGeminiResponse_confidence_90:
  \<open>parseGeminiResponse (js ''{"confidence":90}'') = JObj [(js ''confidence'', JNum 90)]\<close>
proof -
  have \<open>jsonMatch (js ''{"confidence":90}'') = Some (js ''{"confidence":90}'')\<close>
    by (simp add: jsonMatch_def js_def)
  moreover have \<open>JSON_parse (js ''{"confidence":90}'') = Some (JObj [(js ''confidence'', JNum 90)])\<close>
    by (simp add: JSON_parse_def js_def lex_eval)
  ultimately show ?thesis by (simp add: parseGeminiResponse_def)
qed

text \<open>The database when the pipeline of that upload is about to build the insight.\<close>

definition report_processing :: db where
  "report_processing =
     \<lparr>files = (\<lambda>i. None)(1 := Some report_file), insights = (\<lambda>i. None),
      history = [(1, pending), (1, processing)]\<rparr>"

lemma upload_report:
  assumes "parseGeminiResponse reply = JObj [(js ''confidence'', JNum x)]"
    and "env = (model_answers reply)\<lparr>save_throws := a, update_completed_throws := b,
      update_failed_throws := c\<rparr>"
  shows "upload_route env report_upload empty_db
    = (\<lparr>code = 201, message = js ''File uploaded successfully''\<rparr>,
       snd (pipeline_finish env 1 7 report_file (Text report_text)
         \<lparr>success = True, data = JObj [(js ''confidence'', JNum x)],
           processingTime = 1500, fallback = False\<rparr> report_processing))"
proof -
  have r: "up_file_id report_upload = 1" "up_user report_upload = 7"
    "up_fileType report_upload = js ''pdf''" "up_reportType report_upload = js ''blood-test''"
    by (simp_all add: report_upload_def)
  have e: "elapsed env = 1500" by (simp add: assms(2) model_answers_def)
  have "upload_route env report_upload empty_db
    = (\<lparr>code = 201, message = js ''File uploaded successfully''\<rparr>,
       snd (pipeline_finish env (up_file_id report_upload) (up_user report_upload)
         (set_processing (new_file report_upload))
         (Text (metadata_text (set_processing (new_file report_upload))
            (up_fileType report_upload) (up_reportType report_upload)))
         \<lparr>success = True, data = JObj [(js ''confidence'', JNum x)],
           processingTime = elapsed env, fallback = False\<rparr>
         \<lparr>files = (files empty_db)(up_file_id report_upload
              := Some (set_processing (new_file report_upload))),
           insights = insights empty_db,
           history = history empty_db
             @ [(up_file_id report_upload, pending), (up_file_id report_upload, processing)]\<rparr>))"
  proof (rule upload_route_reaches_builder [where reply = reply])
    show "up_valid report_upload" "\<not> up_save_throws report_upload"
      by (simp_all add: report_upload_def)
    show "files empty_db (up_file_id report_upload) = None" by (simp add: empty_db_def)
    show "\<not> update_processing_throws env" "\<not> findById_throws env"
      "generate env = (\<lambda>r. Inr reply)"
      by (simp_all add: assms(2) model_answers_def)
    show "up_fileType report_upload \<noteq> js ''image''" by (simp add: r pdf_is_no_image)
    show "parseGeminiResponse reply = JObj [(js ''confidence'', JNum x)]" by (rule assms(1))
  qed
  then show ?thesis
    by (simp add: r e report_file_def [symmetric] report_text_def [symmetric] empty_db_def
        report_processing_def)
qed

lemma report_processing_fields:
  "files report_processing 1 = Some report_file"
  "insights report_processing i = None"
  "history report_processing = [(1, pending), (1, processing)]"
  by (simp_all add: report_processing_def)

lemma build_report_insight:
  "x \<noteq> 0 \<Longrightarrow>
   buildInsight 1 7 report_file (Text report_text)
     \<lparr>success = True, data = JObj [(js ''confidence'', JNum x)], processingTime = 1500,
       fallback = False\<rparr>
   = Inr (bare_insight 1 7 report_text x 1500)"
  by (rule buildInsight_only_confidence)

text \<open>The three ends of that upload that the claims need.\<close>

definition report_completed :: db where
  "report_completed =
     \<lparr>files = (\<lambda>i. None)(1 := Some (set_completed 10 report_file)),
      insights = (\<lambda>i. None)(10 := Some (bare_insight 1 7 report_text 90 1500)),
      history = [(1, pending), (1, processing), (1, completed)]\<rparr>"

definition report_rejected :: db where
  "report_rejected =
     \<lparr>files = (\<lambda>i. None)(1 := Some (set_failed report_file)),
      insights = (\<lambda>i. None),
      history = [(1, pending), (1, processing), (1, failed)]\<rparr>"

definition report_unlinked :: db where
  "report_unlinked =
     \<lparr>files = (\<lambda>i. None)(1 := Some (set_failed report_file)),
      insights = (\<lambda>i. None)(10 := Some (bare_insight 1 7 report_text 90 1500)),
      history = [(1, pending), (1, processing), (1, failed)]\<rparr>"

lemma upload_report_completed:
  \<open>upload_route (model_answers (js ''{"confidence":90}'')) report_upload empty_db
     = (\<lparr>code = 201, message = js ''File uploaded successfully''\<rparr>, report_completed)\<close>
proof -
  let ?env = \<open>model_answers (js ''{"confidence":90}'')\<close>
  have e: "?env = ?env\<lparr>save_throws := False, update_completed_throws := False,
      update_failed_throws := False\<rparr>"
    by (simp add: model_answers_def)
  have "pipeline_finish ?env 1 7 report_file (Text report_text)
      \<lparr>success = True, data = JObj [(js ''confidence'', JNum 90)], processingTime = 1500,
        fallback = False\<rparr> report_processing
    = (Returned,
       report_processing\<lparr>insights := (insights report_processing)(insight_id ?env
            := Some (bare_insight 1 7 report_text 90 1500)),
         files := (files report_processing)(1 := Some (set_completed (insight_id ?env) report_file)),
         history := history report_processing @ [(1, completed)]\<rparr>)"
    by (rule pipeline_finish_linked)
      (simp_all add: build_report_insight schema_rejects_bare_insight report_processing_fields
        model_answers_def del: One_nat_def)
  then have "snd (pipeline_finish ?env 1 7 report_file (Text report_text)
      \<lparr>success = True, data = JObj [(js ''confidence'', JNum 90)], processingTime = 1500,
        fallback = False\<rparr> report_processing) = report_completed"
    by (simp add: report_processing_def report_completed_def model_answers_def)
  with upload_report [OF parseGeminiResponse_confidence_90 e] show ?thesis by simp
qed

lemma upload_report_rejected:
  \<open>upload_route (model_answers (js ''{"confidence":150}'')) report_upload empty_db
     = (\<lparr>code = 201, message = js ''File uploaded successfully''\<rparr>, report_rejected)\<close>
proof -
  let ?env = \<open>model_answers (js ''{"confidence":150}'')\<close>
  have e: "?env = ?env\<lparr>save_throws := False, update_completed_throws := False,
      update_failed_throws := False\<rparr>"
    by (simp add: model_answers_def)
  have "pipeline_finish ?env 1 7 report_file (Text report_text)
      \<lparr>success = True, data = JObj [(js ''confidence'', JNum 150)], processingTime = 1500,
        fallback = False\<rparr> report_processing
    = (Returned,
       report_processing\<lparr>files := (files report_processing)(1 := Some (set_failed report_file)),
         history := history report_processing @ [(1, failed)]\<rparr>)"
    by (rule pipeline_finish_not_saved [where doc = "bare_insight 1 7 report_text 150 1500"])
      (simp_all add: build_report_insight schema_rejects_bare_insight report_processing_fields
        model_answers_def del: One_nat_def)
  then have "snd (pipeline_finish ?env 1 7 report_file (Text report_text)
      \<lparr>success = True, data = JObj [(js ''confidence'', JNum 150)], processingTime = 1500,
        fallback = False\<rparr> report_processing) = report_rejected"
    by (simp add: report_processing_def report_rejected_def)
  with upload_report [OF parseGeminiResponse_confidence_150 e] show ?thesis by simp
qed

lemma upload_report_unlinked:
  \<open>upload_route ((model_answers (js ''{"confidence":90}''))\<lparr>update_completed_throws := True\<rparr>)
      report_upload empty_db
     = (\<lparr>code = 201, message = js ''File uploaded successfully''\<rparr>, report_unlinked)\<close>
proof -
  let ?env = \<open>(model_answers (js ''{"confidence":90}''))\<lparr>update_completed_throws := True\<rparr>\<close>
  have e: \<open>?env = (model_answers (js ''{"confidence":90}''))\<lparr>save_throws := False,
      update_completed_throws := True, update_failed_throws := False\<rparr>\<close>
    by (simp add: model_answers_def)
  have "pipeline_finish ?env 1 7 report_file (Text report_text)
      \<lparr>success = True, data = JObj [(js ''confidence'', JNum 90)], processingTime = 1500,
        fallback = False\<rparr> report_processing
    = (Returned,
       report_processing\<lparr>insights := (insights report_processing)(insight_id ?env
            := Some (bare_insight 1 7 report_text 90 1500)),
         files := (files report_processing)(1 := Some (set_failed report_file)),
         history := history report_processing @ [(1, failed)]\<rparr>)"
    by (rule pipeline_finish_unlinked)
      (simp_all add: build_report_insight schema_rejects_bare_insight report_processing_fields
        model_answers_def del: One_nat_def)
  then have "snd (pipeline_finish ?env 1 7 report_file (Text report_text)
      \<lparr>success = True, data = JObj [(js ''confidence'', JNum 90)], processingTime = 1500,
        fallback = False\<rparr> report_processing) = report_unlinked"
    by (simp add: report_processing_def report_unlinked_def model_answers_def)
  with upload_report [OF parseGeminiResponse_confidence_90 e] show ?thesis by simp
qed

subsection \<open>Defaults and the confidence (claim C6)\<close>

lemma js_or_absent: "js_or None b = b"
  by (simp add: js_or_def)

lemma js_or_number: "x \<noteq> 0 \<Longrightarrow> js_or (Some (JNum x)) b = JNum x"
  by (simp add: js_or_def truthy_def)

lemma js_or_truthy: "truthy (Some v) \<Longrightarrow> js_or (Some v) b = v"
  by (simp add: js_or_def)

lemma buildInsight_fields:
  assumes "buildInsight fid uid fl fd g = Inr doc"
  shows "keyFindings doc = js_or (member (data g) (js ''keyFindings'')) (JArr [])"
    and "riskFactors doc = js_or (member (data g) (js ''riskFactors'')) (JArr [])"
    and "recommendations doc = js_or (member (data g) (js ''recommendations'')) empty_bilingual"
    and "doctorQuestions doc = js_or (member (data g) (js ''doctorQuestions'')) empty_bilingual"
    and "followUpTimeframe doc
           = castString (js_or (member (data g) (js ''followUpTimeframe'')) (JStr (js ''1-month'')))"
    and "followUpRequired doc = js_or (member (data g) (js ''followUpRequired'')) (JBool False)"
    and "confidence doc = castNumber (js_or (member (data g) (js ''confidence'')) (JNum 60))"
  using assms by (auto simp: buildInsight_def Let_def split: if_splits)

lemma schema_accepts_confidence:
  "\<not> schema_rejects doc \<Longrightarrow> \<exists>y. confidence doc = JNum y \<and> 0 \<le> y \<and> y \<le> 100"
  by (auto simp: schema_rejects_def split: json.splits)

lemma AiInsight_save_accepts:
  "AiInsight_save th iid doc d = Inr d' \<Longrightarrow> \<not> schema_rejects doc \<and> insights d' iid = Some doc"
  by (auto simp: AiInsight_save_def split: if_splits)

lemma AiInsight_save_refuses:
  "schema_rejects doc \<Longrightarrow> AiInsight_save th iid doc d = Inl ValidationError"
  by (simp add: AiInsight_save_def)

lemma confidence_out_of_range:
  "\<not> (\<exists>y. confidence doc = JNum y \<and> 0 \<le> y \<and> y \<le> 100) \<Longrightarrow> schema_rejects doc"
  using schema_accepts_confidence by blast

text \<open>
  C6, as the code has it. A field that is absent from the payload gets its default: empty
  lists of findings and risk factors, empty bilingual recommendations and questions,
  \<open>followUpTimeframe\<close> \<open>1-month\<close>, \<open>followUpRequired\<close> false, confidence 60. A
  confidence of the payload that is truthy goes into the record as the schema casts it to
  Number; a number other than 0 goes in unchanged, whatever its size: nothing clamps it.
  Saving then refuses every record whose confidence is not a number from 0 to 100, with a
  validation error, and the \<open>catch\<close> block of the pipeline marks the file \<open>failed\<close>
  (when its update succeeds) with no insight stored. So a record that is saved has a
  confidence from 0 to 100.
\<close>

theorem buildInsight_defaults:
  assumes "buildInsight fid uid fl fd g = Inr doc"
  shows
    "(member (data g) (js ''keyFindings'') = None \<longrightarrow> keyFindings doc = JArr []) \<and>
     (member (data g) (js ''riskFactors'') = None \<longrightarrow> riskFactors doc = JArr []) \<and>
     (member (data g) (js ''recommendations'') = None \<longrightarrow> recommendations doc = empty_bilingual) \<and>
     (member (data g) (js ''doctorQuestions'') = None \<longrightarrow> doctorQuestions doc = empty_bilingual) \<and>
     (member (data g) (js ''followUpTimeframe'') = None \<longrightarrow>
        followUpTimeframe doc = JStr (js ''1-month'')) \<and>
     (member (data g) (js ''followUpRequired'') = None \<longrightarrow> followUpRequired doc = JBool False) \<and>
     (member (data g) (js ''confidence'') = None \<longrightarrow> confidence doc = JNum 60) \<and>
     (member (data g) (js ''confidence'') = Some v \<and> truthy (Some v) \<longrightarrow>
        confidence doc = castNumber v) \<and>
     (member (data g) (js ''confidence'') = Some (JNum x) \<and> x \<noteq> 0 \<longrightarrow> confidence doc = JNum x) \<and>
     (AiInsight_save th iid doc d = Inr d' \<longrightarrow>
        (\<exists>y. confidence doc = JNum y \<and> 0 \<le> y \<and> y \<le> 100) \<and> insights d' iid = Some doc) \<and>
     (\<not> (\<exists>y. confidence doc = JNum y \<and> 0 \<le> y \<and> y \<le> 100) \<longrightarrow>
        AiInsight_save th iid doc d = Inl ValidationError \<and>
        (files d fid = Some f \<and> \<not> update_failed_throws env \<longrightarrow>
           pipeline_finish env fid uid fl fd g d
             = (Returned,
                d\<lparr>files := (files d)(fid := Some (set_failed f)),
                  history := history d @ [(fid, failed)]\<rparr>)))"
proof -
  note f = buildInsight_fields [OF assms]
  have 1: "member (data g) (js ''confidence'') = Some v \<and> truthy (Some v) \<longrightarrow>
        confidence doc = castNumber v"
    by (simp add: f(7) js_or_truthy)
  have 2: "member (data g) (js ''confidence'') = Some (JNum x) \<and> x \<noteq> 0 \<longrightarrow>
      confidence doc = JNum x"
    by (simp add: f(7) js_or_number castNumber_JNum)
  have 3: "AiInsight_save th iid doc d = Inr d' \<longrightarrow>
        (\<exists>y. confidence doc = JNum y \<and> 0 \<le> y \<and> y \<le> 100) \<and> insights d' iid = Some doc"
    using AiInsight_save_accepts [of th iid doc d d'] schema_accepts_confidence [of doc]
    by blast
  have 4: "AiInsight_save th iid doc d = Inl ValidationError \<and>
        (files d fid = Some f \<and> \<not> update_failed_throws env \<longrightarrow>
           pipeline_finish env fid uid fl fd g d
             = (Returned,
                d\<lparr>files := (files d)(fid := Some (set_failed f)),
                  history := history d @ [(fid, failed)]\<rparr>))"
    if n: "\<not> (\<exists>y. confidence doc = JNum y \<and> 0 \<le> y \<and> y \<le> 100)"
  proof -
    from n have r: "schema_rejects doc" by (rule confidence_out_of_range)
    then have "schema_rejects doc \<or> save_throws env \<or> insights d (insight_id env) \<noteq> None"
      by simp
    from r pipeline_finish_not_saved [OF assms this] show ?thesis
      by (simp add: AiInsight_save_refuses)
  qed
  have 5: "member (data g) (js ''followUpTimeframe'') = None \<longrightarrow>
        followUpTimeframe doc = JStr (js ''1-month'')"
    by (simp add: f(5) js_or_absent castString_JStr)
  have 6: "member (data g) (js ''confidence'') = None \<longrightarrow> confidence doc = JNum 60"
    by (simp add: f(7) js_or_absent castNumber_JNum)
  from 1 2 3 4 5 6 show ?thesis
    by (simp add: f(1-4,6) js_or_absent)
qed

text \<open>
  The theorem at the upload of the report, for a payload that holds only a confidence:
  the number 150, the string \<open>150\<close>, and the number 90.
\<close>

lemma castNumber_string_150: "castNumber (JStr (js ''150'')) = JNum 150"
  by (simp add: castNumber_def unwrap_id_def member_def StringToNumber_def trim_whitespace_def
      is_StrWhiteSpaceChar_def StrUnsignedDecimalLiteral_def is_digit_def lex_exp_def
      digits_value_def scale10_def js_def Let_def)

lemma buildInsight_string_150:
  "buildInsight 1 7 report_file (Text report_text)
     \<lparr>success = True, data = JObj [(js ''confidence'', JStr (js ''150''))], processingTime = 1500,
       fallback = False\<rparr>
   = Inr (bare_insight 1 7 report_text 150 1500)"
proof -
  have t: "truthy (Some (JStr (js ''150'')))" by (simp add: truthy_def js_def)
  show ?thesis
    by (simp add: buildInsight_def member_only_confidence js_or_absent js_or_truthy [OF t]
        opt_member_def bare_insight_def castNumber_string_150 castString_JStr)
qed

theorem buildInsight_defaults_witness:
  "buildInsight 1 7 report_file (Text report_text)
     \<lparr>success = True, data = JObj [(js ''confidence'', JNum 150)], processingTime = 1500,
       fallback = False\<rparr>
     = Inr (bare_insight 1 7 report_text 150 1500) \<and>
   buildInsight 1 7 report_file (Text report_text)
     \<lparr>success = True, data = JObj [(js ''confidence'', JStr (js ''150''))], processingTime = 1500,
       fallback = False\<rparr>
     = Inr (bare_insight 1 7 report_text 150 1500) \<and>
   keyFindings (bare_insight 1 7 report_text 150 1500) = JArr [] \<and>
   followUpTimeframe (bare_insight 1 7 report_text 150 1500) = JStr (js ''1-month'') \<and>
   confidence (bare_insight 1 7 report_text 150 1500) = JNum 150 \<and>
   AiInsight_save False 10 (bare_insight 1 7 report_text 150 1500) report_processing
     = Inl ValidationError \<and>
   files report_processing 1 = Some report_file \<and>
   pipeline_finish (model_answers []) 1 7 report_file (Text report_text)
     \<lparr>success = True, data = JObj [(js ''confidence'', JStr (js ''150''))], processingTime = 1500,
       fallback = False\<rparr> report_processing
     = (Returned,
        report_processing\<lparr>files := (files report_processing)(1 := Some (set_failed report_file)),
          history := history report_processing @ [(1, failed)]\<rparr>) \<and>
   AiInsight_save False 10 (bare_insight 1 7 report_text 90 1500) report_processing
     = Inr (report_processing\<lparr>insights := (insights report_processing)
              (10 := Some (bare_insight 1 7 report_text 90 1500))\<rparr>) \<and>
   confidence (bare_insight 1 7 report_text 90 1500) = JNum 90"
proof -
  let ?g = "\<lparr>success = True, data = JObj [(js ''confidence'', JNum 150)], processingTime = 1500,
       fallback = False\<rparr>"
  let ?h = "\<lparr>success = True, data = JObj [(js ''confidence'', JStr (js ''150''))],
       processingTime = 1500, fallback = False\<rparr>"
  let ?g90 = "\<lparr>success = True, data = JObj [(js ''confidence'', JNum 90)], processingTime = 1500,
       fallback = False\<rparr>"
  let ?doc = "bare_insight 1 7 report_text 150 1500"
  let ?doc90 = "bare_insight 1 7 report_text 90 1500"
  have b: "buildInsight 1 7 report_file (Text report_text) ?g = Inr ?doc"
    by (rule build_report_insight) simp
  have b90: "buildInsight 1 7 report_file (Text report_text) ?g90 = Inr ?doc90"
    by (rule build_report_insight) simp
  note h = buildInsight_string_150
  have c: "confidence ?doc = JNum 150" "confidence ?doc90 = JNum 90"
    by (simp_all add: bare_insight_def)
  have n: "\<not> (\<exists>y. confidence ?doc = JNum y \<and> 0 \<le> y \<and> y \<le> 100)"
    by (simp add: bare_insight_def)
  have fl: "files report_processing 1 = Some report_file"
    by (rule report_processing_fields)
  have e: "\<not> update_failed_throws (model_answers [])" by (simp add: model_answers_def)
  note t = buildInsight_defaults [OF b, of "JNum 150" 150 False 10 report_processing
      report_processing report_file "model_answers []"]
  note u = buildInsight_defaults [OF h, of "JStr (js ''150'')" 150 False 10 report_processing
      report_processing report_file "model_answers []"]
  note v = buildInsight_defaults [OF b90, of "JNum 90" 90 False 10 report_processing
      "report_processing\<lparr>insights := (insights report_processing)(10 := Some ?doc90)\<rparr>"
      report_file "model_answers []"]
  have k: "keyFindings ?doc = JArr []"
    using t by (simp add: member_only_confidence)
  have f: "followUpTimeframe ?doc = JStr (js ''1-month'')"
    using t by (simp add: member_only_confidence)
  have r: "AiInsight_save False 10 ?doc report_processing = Inl ValidationError"
    using t n by blast
  have p: "pipeline_finish (model_answers []) 1 7 report_file (Text report_text) ?h
      report_processing
     = (Returned,
        report_processing\<lparr>files := (files report_processing)(1 := Some (set_failed report_file)),
          history := history report_processing @ [(1, failed)]\<rparr>)"
    using u n fl e by blast
  have s: "AiInsight_save False 10 ?doc90 report_processing
     = Inr (report_processing\<lparr>insights := (insights report_processing)(10 := Some ?doc90)\<rparr>)"
    by (simp add: AiInsight_save_def schema_rejects_bare_insight report_processing_fields)
  from v s have "\<exists>y. confidence ?doc90 = JNum y \<and> 0 \<le> y \<and> y \<le> 100" by blast
  with c(2) have "confidence ?doc90 = JNum 90" by simp
  from b h k f c(1) r fl p s this show ?thesis by (intro conjI)
qed

text \<open>
  The claim as it was stated fails: a payload with confidence 150 is not stored with a
  confidence clamped to 100. The record built keeps 150, saving it is refused, and the
  upload of the report ends with the file \<open>failed\<close> and no insight in the store.
\<close>

theorem buildInsight_clamp_counterexample:
  \<open>buildInsight 1 7 report_file (Text report_text)
     \<lparr>success = True, data = JObj [(js ''confidence'', JNum 150)], processingTime = 1500,
       fallback = False\<rparr>
     = Inr (bare_insight 1 7 report_text 150 1500) \<and>
   confidence (bare_insight 1 7 report_text 150 1500) = JNum 150 \<and>
   confidence (bare_insight 1 7 report_text 150 1500) \<noteq> JNum 100 \<and>
   AiInsight_save False 10 (bare_insight 1 7 report_text 150 1500) report_processing
     = Inl ValidationError \<and>
   upload_route (model_answers (js ''{"confidence":150}'')) report_upload empty_db
     = (\<lparr>code = 201, message = js ''File uploaded successfully''\<rparr>, report_rejected) \<and>
   files report_rejected 1 = Some (set_failed report_file) \<and>
   insights report_rejected 10 = None\<close>
proof -
  have b: "buildInsight 1 7 report_file (Text report_text)
     \<lparr>success = True, data = JObj [(js ''confidence'', JNum 150)], processingTime = 1500,
       fallback = False\<rparr> = Inr (bare_insight 1 7 report_text 150 1500)"
    by (rule build_report_insight) simp
  have c: "confidence (bare_insight 1 7 report_text 150 1500) = JNum 150"
    "confidence (bare_insight 1 7 report_text 150 1500) \<noteq> JNum 100"
    by (simp_all add: bare_insight_def)
  have r: "AiInsight_save False 10 (bare_insight 1 7 report_text 150 1500) report_processing
     = Inl ValidationError"
    by (simp add: AiInsight_save_def schema_rejects_bare_insight)
  have d: "files report_rejected 1 = Some (set_failed report_file)"
    "insights report_rejected 10 = None"
    by (simp_all add: report_rejected_def)
  from b c r upload_report_rejected d show ?thesis by (intro conjI)
qed

subsection \<open>Insight and file after the builder (claim C3)\<close>

text \<open>
  An insight is linked when the file it was built for refers to it; an orphan is an insight
  that is stored and not linked.
\<close>

definition linked :: "db \<Rightarrow> nat \<Rightarrow> bool" where
  "linked d iid =
     (case insights d iid of
        None \<Rightarrow> False
      | Some doc \<Rightarrow>
          (case files d (insight_file doc) of
             None \<Rightarrow> False
           | Some f \<Rightarrow> aiInsight f = Some iid))"

definition orphan :: "db \<Rightarrow> nat \<Rightarrow> bool" where
  "orphan d iid \<longleftrightarrow> insights d iid \<noteq> None \<and> \<not> linked d iid"

text \<open>What the claim asks of the database after a run that built insight \<open>iid\<close> for file \<open>fid\<close>.\<close>

definition all_or_nothing :: "db \<Rightarrow> nat \<Rightarrow> nat \<Rightarrow> bool" where
  "all_or_nothing d fid iid =
     (case files d fid of
        None \<Rightarrow> False
      | Some f \<Rightarrow>
          (processingStatus f = completed \<and> insights d iid \<noteq> None \<and> linked d iid) \<or>
          (processingStatus f = failed \<and> insights d iid = None))"

lemma buildInsight_file:
  "buildInsight fid uid fl fd g = Inr doc \<Longrightarrow> insight_file doc = fid"
  by (auto simp: buildInsight_def Let_def split: if_splits)

lemma pipeline_finish_rejected:
  assumes "buildInsight fid uid fl fd g = Inr doc"
    and "schema_rejects doc \<or> save_throws env" and "update_failed_throws env"
  shows "pipeline_finish env fid uid fl fd g d = (Rejected DatabaseError, d)"
  using assms
  by (auto simp: pipeline_finish_def pipeline_persist_def pipeline_catch_def AiInsight_save_def
      File_findByIdAndUpdate_def)

lemma pipeline_finish_rejected_unlinked:
  assumes "buildInsight fid uid fl fd g = Inr doc"
    and "\<not> schema_rejects doc" and "\<not> save_throws env" and "insights d (insight_id env) = None"
    and "update_completed_throws env" and "update_failed_throws env"
  shows "pipeline_finish env fid uid fl fd g d
    = (Rejected DatabaseError, d\<lparr>insights := (insights d)(insight_id env := Some doc)\<rparr>)"
  using assms
  by (simp add: pipeline_finish_def pipeline_persist_def pipeline_catch_def AiInsight_save_def
      File_findByIdAndUpdate_def)

text \<open>
  C3, as the code has it. The run has reached the builder: the file exists, the insight is
  built, its \<open>_id\<close> is new. Then

  \<^item> when the insight is saved and the update of the file succeeds, the insight is stored,
    the file is \<open>completed\<close> and refers to it;
  \<^item> when the insight is not saved (the validator refuses it or the database throws) and the
    update of the \<open>catch\<close> block succeeds, the file is \<open>failed\<close> and no insight has
    been stored;
  \<^item> when the insight is saved and the update of the file throws, the \<open>catch\<close> block marks
    the file \<open>failed\<close> and the insight stays in the store, linked from no file: nothing
    deletes it;
  \<^item> when the update of the \<open>catch\<close> block throws as well, the files are left as they
    were, the status \<open>processing\<close> included.
\<close>

theorem pipeline_finish_outcomes:
  assumes "files d fid = Some f" and "aiInsight f \<noteq> Some (insight_id env)"
    and "buildInsight fid uid fl fd g = Inr doc" and "insights d (insight_id env) = None"
  shows
    "(\<not> schema_rejects doc \<and> \<not> save_throws env \<and> \<not> update_completed_throws env \<longrightarrow>
        (\<exists>d'. pipeline_finish env fid uid fl fd g d = (Returned, d') \<and>
           insights d' (insight_id env) = Some doc \<and>
           files d' fid = Some (set_completed (insight_id env) f) \<and>
           linked d' (insight_id env) \<and> all_or_nothing d' fid (insight_id env))) \<and>
     ((schema_rejects doc \<or> save_throws env) \<and> \<not> update_failed_throws env \<longrightarrow>
        (\<exists>d'. pipeline_finish env fid uid fl fd g d = (Returned, d') \<and>
           insights d' = insights d \<and> files d' fid = Some (set_failed f) \<and>
           all_or_nothing d' fid (insight_id env))) \<and>
     (\<not> schema_rejects doc \<and> \<not> save_throws env \<and> update_completed_throws env \<and>
      \<not> update_failed_throws env \<longrightarrow>
        (\<exists>d'. pipeline_finish env fid uid fl fd g d = (Returned, d') \<and>
           insights d' (insight_id env) = Some doc \<and> files d' fid = Some (set_failed f) \<and>
           orphan d' (insight_id env) \<and> \<not> all_or_nothing d' fid (insight_id env))) \<and>
     ((schema_rejects doc \<or> save_throws env \<or> update_completed_throws env) \<and>
      update_failed_throws env \<longrightarrow>
        (\<exists>d'. pipeline_finish env fid uid fl fd g d = (Rejected DatabaseError, d') \<and>
           files d' = files d))"
proof -
  let ?iid = "insight_id env"
  note b = assms(3)
  note ins = buildInsight_file [OF b]
  have 1: "\<exists>d'. pipeline_finish env fid uid fl fd g d = (Returned, d') \<and>
           insights d' ?iid = Some doc \<and> files d' fid = Some (set_completed ?iid f) \<and>
           linked d' ?iid \<and> all_or_nothing d' fid ?iid"
    if "\<not> schema_rejects doc" "\<not> save_throws env" "\<not> update_completed_throws env"
    using pipeline_finish_linked [OF b that(1,2) assms(4) that(3) assms(1)]
    by (simp add: linked_def all_or_nothing_def ins set_completed_def)
  have 2: "\<exists>d'. pipeline_finish env fid uid fl fd g d = (Returned, d') \<and>
           insights d' = insights d \<and> files d' fid = Some (set_failed f) \<and>
           all_or_nothing d' fid ?iid"
    if "schema_rejects doc \<or> save_throws env" "\<not> update_failed_throws env"
  proof -
    have "schema_rejects doc \<or> save_throws env \<or> insights d ?iid \<noteq> None"
      using that(1) by blast
    from pipeline_finish_not_saved [OF b this that(2) assms(1)] show ?thesis
      by (simp add: all_or_nothing_def assms(4) set_failed_def)
  qed
  have 3: "\<exists>d'. pipeline_finish env fid uid fl fd g d = (Returned, d') \<and>
           insights d' ?iid = Some doc \<and> files d' fid = Some (set_failed f) \<and>
           orphan d' ?iid \<and> \<not> all_or_nothing d' fid ?iid"
    if "\<not> schema_rejects doc" "\<not> save_throws env" "update_completed_throws env"
      "\<not> update_failed_throws env"
    using pipeline_finish_unlinked [OF b that(1,2) assms(4) that(3,4) assms(1)] assms(2)
    by (simp add: linked_def orphan_def all_or_nothing_def ins set_failed_def)
  have 4: "\<exists>d'. pipeline_finish env fid uid fl fd g d = (Rejected DatabaseError, d') \<and>
           files d' = files d"
    if "schema_rejects doc \<or> save_throws env \<or> update_completed_throws env"
      "update_failed_throws env"
  proof (cases "schema_rejects doc \<or> save_throws env")
    case True
    from pipeline_finish_rejected [OF b True that(2)] show ?thesis by simp
  next
    case False
    with that(1) have "\<not> schema_rejects doc" "\<not> save_throws env" "update_completed_throws env"
      by blast+
    from pipeline_finish_rejected_unlinked [OF b this(1,2) assms(4) this(3) that(2)]
    show ?thesis by simp
  qed
  from 1 2 3 4 show ?thesis by blast
qed

text \<open>
  The theorem at the upload of the report, with a model that answers confidence 90: once
  with a database that takes every call, once with one that throws at the update that
  links the insight.
\<close>

theorem pipeline_finish_outcomes_witness:
  \<open>files report_processing 1 = Some report_file \<and>
   insights report_processing 10 = None \<and>
   buildInsight 1 7 report_file (Text report_text)
     \<lparr>success = True, data = JObj [(js ''confidence'', JNum 90)], processingTime = 1500,
       fallback = False\<rparr> = Inr (bare_insight 1 7 report_text 90 1500) \<and>
   (\<exists>d'. pipeline_finish (model_answers (js ''{"confidence":90}'')) 1 7 report_file
            (Text report_text)
            \<lparr>success = True, data = JObj [(js ''confidence'', JNum 90)], processingTime = 1500,
              fallback = False\<rparr> report_processing = (Returned, d') \<and>
          files d' 1 = Some (set_completed 10 report_file) \<and> linked d' 10) \<and>
   (\<exists>d'. pipeline_finish
            ((model_answers (js ''{"confidence":90}''))\<lparr>update_completed_throws := True\<rparr>)
            1 7 report_file (Text report_text)
            \<lparr>success = True, data = JObj [(js ''confidence'', JNum 90)], processingTime = 1500,
              fallback = False\<rparr> report_processing = (Returned, d') \<and>
          files d' 1 = Some (set_failed report_file) \<and> orphan d' 10)\<close>
proof -
  let ?g = "\<lparr>success = True, data = JObj [(js ''confidence'', JNum 90)], processingTime = 1500,
       fallback = False\<rparr>"
  let ?env = \<open>model_answers (js ''{"confidence":90}'')\<close>
  let ?doc = "bare_insight 1 7 report_text 90 1500"
  have f: "files report_processing 1 = Some report_file"
    by (rule report_processing_fields)
  have i: "insights report_processing 10 = None"
    by (rule report_processing_fields)
  have b: "buildInsight 1 7 report_file (Text report_text) ?g = Inr ?doc"
    by (rule build_report_insight) simp
  have s: "\<not> schema_rejects ?doc" by (simp add: schema_rejects_bare_insight)
  have a: "aiInsight report_file \<noteq> Some (insight_id env)" for env :: pipeline_env
    by (simp add: report_file_fields)
  have e: "insight_id ?env = 10" "\<not> save_throws ?env" "\<not> update_completed_throws ?env"
    "\<not> update_failed_throws ?env"
    by (simp_all add: model_answers_def)
  have e': "insight_id (?env\<lparr>update_completed_throws := True\<rparr>) = 10"
    "\<not> save_throws (?env\<lparr>update_completed_throws := True\<rparr>)"
    "update_completed_throws (?env\<lparr>update_completed_throws := True\<rparr>)"
    "\<not> update_failed_throws (?env\<lparr>update_completed_throws := True\<rparr>)"
    by (simp_all add: model_answers_def)
  have 1: "\<exists>d'. pipeline_finish ?env 1 7 report_file (Text report_text) ?g report_processing
        = (Returned, d') \<and> files d' 1 = Some (set_completed 10 report_file) \<and> linked d' 10"
    using pipeline_finish_outcomes [of report_processing 1 report_file ?env 7 report_file
        "Text report_text" ?g ?doc, OF f a b] i s e
    by (simp del: One_nat_def) blast
  have 2: "\<exists>d'. pipeline_finish (?env\<lparr>update_completed_throws := True\<rparr>) 1 7 report_file
        (Text report_text) ?g report_processing
        = (Returned, d') \<and> files d' 1 = Some (set_failed report_file) \<and> orphan d' 10"
    using pipeline_finish_outcomes [of report_processing 1 report_file
        "?env\<lparr>update_completed_throws := True\<rparr>" 7 report_file
        "Text report_text" ?g ?doc, OF f a b] i s e'
    by (simp del: One_nat_def) blast
  from f i b 1 2 show ?thesis by (intro conjI)
qed

text \<open>
  The claim as it was stated fails when the insight is saved and the update that links it
  throws: the upload of the report ends with the file \<open>failed\<close> and insight 10 in the
  store, which no file refers to.
\<close>

theorem pipeline_orphan_counterexample:
  \<open>upload_route ((model_answers (js ''{"confidence":90}''))\<lparr>update_completed_throws := True\<rparr>)
      report_upload empty_db
     = (\<lparr>code = 201, message = js ''File uploaded successfully''\<rparr>, report_unlinked) \<and>
   files report_unlinked 1 = Some (set_failed report_file) \<and>
   processingStatus (set_failed report_file) = failed \<and>
   aiInsight (set_failed report_file) = None \<and>
   insights report_unlinked 10 = Some (bare_insight 1 7 report_text 90 1500) \<and>
   orphan report_unlinked 10 \<and>
   \<not> all_or_nothing report_unlinked 1 10\<close>
proof -
  have "files report_unlinked 1 = Some (set_failed report_file)"
    "insights report_unlinked 10 = Some (bare_insight 1 7 report_text 90 1500)"
    by (simp_all add: report_unlinked_def)
  moreover have "processingStatus (set_failed report_file) = failed"
    "aiInsight (set_failed report_file) = None"
    by (simp_all add: set_failed_def report_file_fields)
  moreover have "orphan report_unlinked 10" "\<not> all_or_nothing report_unlinked 1 10"
    by (simp_all add: orphan_def linked_def all_or_nothing_def report_unlinked_def
        bare_insight_def set_failed_def report_file_fields)
  ultimately show ?thesis using upload_report_unlinked by (intro conjI)
qed

subsection \<open>The sequence of statuses of a file (claim C4)\<close>

text \<open>The prefixes of pending, processing, then completed or failed.\<close>

definition lifecycle_prefix :: "status list \<Rightarrow> bool" where
  "lifecycle_prefix ss \<longleftrightarrow>
     ss = [] \<or> ss = [pending] \<or> ss = [pending, processing] \<or>
     ss = [pending, processing, completed] \<or> ss = [pending, processing, failed]"

lemma sample_enumerations:
  "\<not> elements_reject (js ''status'') statuses sample_keyFindings"
  "\<not> elements_reject (js ''level'') levels sample_riskFactors"
  by (simp_all add: elements_reject_def enum_rejects_def castString_def member_def
      sample_keyFindings_def sample_riskFactors_def statuses_def levels_def js_def)

lemma schema_accepts_sample_insight: "\<not> schema_rejects (sample_insight fid uid t)"
  by (simp add: schema_rejects_def sample_insight_def sample_enumerations)
    (simp add: timeframes_def js_def)

text \<open>The report whose insight was refused, analysed again through the route.\<close>

definition report_reanalysed :: db where
  "report_reanalysed =
     \<lparr>files = (\<lambda>i. None)(1 := Some (set_completed 11 (set_processing (set_failed report_file)))),
      insights = (\<lambda>i. None)(11 := Some (sample_insight 1 7 3000)),
      history = [(1, pending), (1, processing), (1, failed), (1, processing), (1, completed)]\<rparr>"

lemma analyze_report_rejected:
  "analyze_route no_faults 1 7 report_rejected
     = (Some \<lparr>code = 200, message = js ''AI analysis completed successfully''\<rparr>,
        report_reanalysed)"
  by (simp add: analyze_route_def analyze_try_def File_findOne_def File_findByIdAndUpdate_def
      AiInsight_save_def schema_accepts_sample_insight no_faults_def report_rejected_def
      report_reanalysed_def set_failed_def set_processing_def set_completed_def
      report_file_fields del: One_nat_def)

subsubsection \<open>A task run alone is the function of the route\<close>

lemma schedule_snoc: "schedule (es @ [e]) = happen (schedule es) e"
  by (simp add: schedule_def)

lemma run_P_done:
  "run n (Pipeline env fid ft rt uid (P_done r)) d = (Pipeline env fid ft rt uid (P_done r), d)"
  by (induction n) (simp_all add: pipeline_step_def)

lemma run_P_catch:
  "run (Suc n) (Pipeline env fid ft rt uid P_catch) d
     = (Pipeline env fid ft rt uid (P_done (fst (pipeline_catch env fid d))),
        snd (pipeline_catch env fid d))"
  by (simp add: pipeline_step_def pipeline_catch_def run_P_done split: sum.splits)

lemma run_P_save:
  "run (Suc (Suc (Suc n))) (Pipeline env fid ft rt uid (P_save fl fd g)) d
     = (Pipeline env fid ft rt uid (P_done (fst (pipeline_finish env fid uid fl fd g d))),
        snd (pipeline_finish env fid uid fl fd g d))"
proof (cases "buildInsight fid uid fl fd g")
  case (Inl e)
  then show ?thesis
    by (subst run.simps(2))
      (simp add: pipeline_step_def pipeline_finish_def pipeline_persist_def run_P_catch
        del: run.simps)
next
  case b: (Inr doc)
  show ?thesis
  proof (cases "AiInsight_save (save_throws env) (insight_id env) doc d")
    case (Inl e)
    with b show ?thesis
      by (subst run.simps(2))
        (simp add: pipeline_step_def pipeline_finish_def pipeline_persist_def run_P_catch
          del: run.simps)
  next
    case s: (Inr d1)
    show ?thesis
    proof (cases "File_findByIdAndUpdate (update_completed_throws env) fid
        (set_completed (insight_id env)) d1")
      case (Inl e)
      with b s show ?thesis
        by (subst run.simps(2), simp add: pipeline_step_def del: run.simps,
            subst run.simps(2))
          (simp add: pipeline_step_def pipeline_finish_def pipeline_persist_def run_P_catch
            del: run.simps)
    next
      case (Inr d2)
      with b s show ?thesis
        by (subst run.simps(2), simp add: pipeline_step_def del: run.simps,
            subst run.simps(2))
          (simp add: pipeline_step_def pipeline_finish_def pipeline_persist_def run_P_done
            del: run.simps)
    qed
  qed
qed

lemma run_P_mark:
  "run 5 (Pipeline env fid ft rt uid P_mark) d
     = (Pipeline env fid ft rt uid (P_done (fst (processAIInsight env fid ft rt uid d))),
        snd (processAIInsight env fid ft rt uid d))"
proof -
  have five: "(5::nat) = Suc (Suc (Suc (Suc (Suc 0))))" by simp
  show ?thesis
  proof (cases "File_findByIdAndUpdate (update_processing_throws env) fid set_processing d")
    case (Inl e)
    then show ?thesis
      unfolding five
      by (subst run.simps(2))
        (simp add: pipeline_step_def processAIInsight_def pipeline_prepare_def run_P_catch
          del: run.simps)
  next
    case m: (Inr d1)
    show ?thesis
    proof (cases "File_findById (findById_throws env) fid d1")
      case (Inl e)
      with m show ?thesis
        unfolding five
        by (subst run.simps(2), simp add: pipeline_step_def del: run.simps,
            subst run.simps(2))
          (simp add: pipeline_step_def processAIInsight_def pipeline_prepare_def run_P_catch
            del: run.simps)
    next
      case f: (Inr r)
      show ?thesis
      proof (cases r)
        case None
        with m f show ?thesis
          unfolding five
          by (subst run.simps(2), simp add: pipeline_step_def del: run.simps,
              subst run.simps(2))
            (simp add: pipeline_step_def processAIInsight_def pipeline_prepare_def run_P_catch
              del: run.simps)
      next
        case (Some fl)
        with m f show ?thesis
          unfolding five
          by (subst run.simps(2), simp add: pipeline_step_def del: run.simps,
              subst run.simps(2))
            (simp add: pipeline_step_def processAIInsight_def pipeline_prepare_def run_P_save
              del: run.simps)
      qed
    qed
  qed
qed

lemma run_A_done:
  "run n (Analysis env fid uid (A_done r)) d = (Analysis env fid uid (A_done r), d)"
  by (induction n) (simp_all add: analyze_step_def)

lemma run_A_catch:
  "run (Suc n) (Analysis env fid uid A_catch) d
     = (case File_findByIdAndUpdate (mark_failed_throws env) fid set_failed d of
          Inl e \<Rightarrow> (Analysis env fid uid (A_done None), d)
        | Inr d2 \<Rightarrow>
            (Analysis env fid uid (A_done (Some \<lparr>code = 500, message = js ''AI analysis failed''\<rparr>)),
             d2))"
  by (simp add: analyze_step_def run_A_done split: sum.splits)

lemma analyze_route_caught:
  "analyze_try env fid uid d = Inl (e, d1) \<Longrightarrow>
   run (Suc n) (Analysis env fid uid A_catch) d1
     = (Analysis env fid uid (A_done (fst (analyze_route env fid uid d))),
        snd (analyze_route env fid uid d))"
  by (simp add: run_A_catch analyze_route_def del: run.simps split: sum.splits)

lemma analyze_route_answered:
  "analyze_try env fid uid d = Inr (res, d1) \<Longrightarrow>
   run n (Analysis env fid uid (A_done (Some res))) d1
     = (Analysis env fid uid (A_done (fst (analyze_route env fid uid d))),
        snd (analyze_route env fid uid d))"
  by (simp add: run_A_done analyze_route_def)

lemma run_A_mark:
  assumes "File_findOne (findOne_throws env) fid uid d = Inr (Some fl)"
    and "\<not> (isProcessed fl \<and> aiInsight fl \<noteq> None)"
  shows "run (Suc (Suc (Suc (Suc n)))) (Analysis env fid uid A_mark) d
     = (Analysis env fid uid (A_done (fst (analyze_route env fid uid d))),
        snd (analyze_route env fid uid d))"
proof -
  have tr: "analyze_try env fid uid d
    = (case File_findByIdAndUpdate (mark_processing_throws env) fid set_processing d of
         Inl e \<Rightarrow> Inl (e, d)
       | Inr d1 \<Rightarrow>
           (case AiInsight_save (insight_save_throws env) (new_insight_id env)
                   (sample_insight fid uid (took env)) d1 of
              Inl e \<Rightarrow> Inl (e, d1)
            | Inr d2 \<Rightarrow>
                (case File_findByIdAndUpdate (mark_completed_throws env) fid
                        (set_completed (new_insight_id env)) d2 of
                   Inl e \<Rightarrow> Inl (e, d2)
                 | Inr d3 \<Rightarrow>
                     Inr (\<lparr>code = 200, message = js ''AI analysis completed successfully''\<rparr>,
                          d3))))"
    using assms by (auto simp: analyze_try_def)
  show ?thesis
  proof (cases "File_findByIdAndUpdate (mark_processing_throws env) fid set_processing d")
    case (Inl e)
    with tr have t: "analyze_try env fid uid d = Inl (e, d)" by simp
    from Inl show ?thesis
      by (subst run.simps(2))
        (simp add: analyze_step_def analyze_route_caught [OF t] del: run.simps)
  next
    case m: (Inr d1)
    show ?thesis
    proof (cases "AiInsight_save (insight_save_throws env) (new_insight_id env)
        (sample_insight fid uid (took env)) d1")
      case (Inl e)
      with tr m have t: "analyze_try env fid uid d = Inl (e, d1)" by simp
      from m Inl show ?thesis
        by (subst run.simps(2), simp add: analyze_step_def del: run.simps,
            subst run.simps(2))
          (simp add: analyze_step_def analyze_route_caught [OF t] del: run.simps)
    next
      case s: (Inr d2)
      show ?thesis
      proof (cases "File_findByIdAndUpdate (mark_completed_throws env) fid
          (set_completed (new_insight_id env)) d2")
        case (Inl e)
        with tr m s have t: "analyze_try env fid uid d = Inl (e, d2)" by simp
        from m s Inl show ?thesis
          by (subst run.simps(2), simp add: analyze_step_def del: run.simps,
              subst run.simps(2), simp add: analyze_step_def del: run.simps,
              subst run.simps(2))
            (simp add: analyze_step_def analyze_route_caught [OF t] del: run.simps)
      next
        case (Inr d3)
        with tr m s have t: "analyze_try env fid uid d
            = Inr (\<lparr>code = 200, message = js ''AI analysis completed successfully''\<rparr>, d3)"
          by simp
        from m s Inr show ?thesis
          by (subst run.simps(2), simp add: analyze_step_def del: run.simps,
              subst run.simps(2), simp add: analyze_step_def del: run.simps,
              subst run.simps(2))
            (simp add: analyze_step_def analyze_route_answered [OF t] del: run.simps)
      qed
    qed
  qed
qed

lemma run_A_lookup:
  "run 5 (Analysis env fid uid A_lookup) d
     = (Analysis env fid uid (A_done (fst (analyze_route env fid uid d))),
        snd (analyze_route env fid uid d))"
proof -
  have five: "(5::nat) = Suc (Suc (Suc (Suc (Suc 0))))" by simp
  show ?thesis
  proof (cases "File_findOne (findOne_throws env) fid uid d")
    case (Inl e)
    then have t: "analyze_try env fid uid d = Inl (e, d)" by (simp add: analyze_try_def)
    from Inl show ?thesis
      unfolding five
      by (subst run.simps(2))
        (simp add: analyze_step_def analyze_route_caught [OF t] del: run.simps)
  next
    case l: (Inr r)
    show ?thesis
    proof (cases r)
      case None
      with l have t: "analyze_try env fid uid d
          = Inr (\<lparr>code = 404, message = js ''File not found''\<rparr>, d)"
        by (simp add: analyze_try_def)
      from l None show ?thesis
        unfolding five
        by (subst run.simps(2))
          (simp add: analyze_step_def analyze_route_answered [OF t] del: run.simps)
    next
      case (Some fl)
      show ?thesis
      proof (cases "isProcessed fl \<and> aiInsight fl \<noteq> None")
        case True
        with l Some have t: "analyze_try env fid uid d
            = Inr (\<lparr>code = 400, message = js ''File already processed''\<rparr>, d)"
          by (simp add: analyze_try_def)
        from l Some True show ?thesis
          unfolding five
          by (subst run.simps(2))
            (simp add: analyze_step_def analyze_route_answered [OF t] del: run.simps)
      next
        case False
        from l Some have f: "File_findOne (findOne_throws env) fid uid d = Inr (Some fl)"
          by simp
        with False have st: "analyze_step env fid uid A_lookup d = (A_mark, d)"
          by (auto simp: analyze_step_def)
        show ?thesis
          unfolding five
          by (subst run.simps(2)) (simp add: st run_A_mark [OF f False] del: run.simps)
      qed
    qed
  qed
qed

text \<open>The steps of one task in a row, as events of the server.\<close>

lemma happen_steps:
  assumes "i < length (tasks s)"
  shows "foldl happen s (replicate n (Step i))
     = \<lparr>store = snd (run n (tasks s ! i) (store s)),
        tasks = (tasks s)[i := fst (run n (tasks s ! i) (store s))]\<rparr>"
  using assms
proof (induction n arbitrary: s)
  case 0
  then show ?case by simp
next
  case (Suc n)
  obtain t' d' where t: "task_step (tasks s ! i) (store s) = (t', d')" by force
  let ?s = "\<lparr>store = d', tasks = (tasks s)[i := t']\<rparr>"
  from Suc.prems t have h: "happen s (Step i) = ?s" by simp
  have l: "i < length (tasks ?s)" using Suc.prems by simp
  from Suc.IH [OF l] Suc.prems show ?case
    by (simp add: h t)
qed

lemma interleaved_foldl: "interleaved s \<Longrightarrow> interleaved (foldl happen s es)"
  by (induction es arbitrary: s) (simp_all add: interleaved_happen)

lemma interleaved_schedule: "interleaved (schedule es)"
  unfolding schedule_def using interleaved_idle by (rule interleaved_foldl)

text \<open>
  The states the two routes reach when each request runs to its end before the next are
  among the states of the server.
\<close>

lemma reachable_interleaved: "reachable d \<Longrightarrow> \<exists>ts. interleaved \<lparr>store = d, tasks = ts\<rparr>"
proof (induction rule: reachable.induct)
  case reachable_empty
  have "interleaved \<lparr>store = empty_db, tasks = []\<rparr>"
    using interleaved_idle by (simp add: idle_def)
  then show ?case by blast
next
  case (reachable_upload d env req res d')
  then obtain ts where i: "interleaved \<lparr>store = d, tasks = ts\<rparr>" by blast
  let ?s = "\<lparr>store = d, tasks = ts\<rparr>"
  show ?case
  proof (cases "up_valid req")
    case False
    with reachable_upload.hyps(2) have "d' = d" by (simp add: upload_route_def)
    with i show ?thesis by blast
  next
    case True
    show ?thesis
    proof (cases "File_save (up_save_throws req) (up_file_id req) (new_file req) d")
      case (Inl e)
      with True reachable_upload.hyps(2) have "d' = d" by (simp add: upload_route_def)
      with i show ?thesis by blast
    next
      case (Inr d1)
      let ?t = "Pipeline env (up_file_id req) (up_fileType req) (up_reportType req)
          (up_user req) P_mark"
      let ?s1 = "\<lparr>store = d1, tasks = ts @ [?t]\<rparr>"
      from True Inr have "happen ?s (Upload env req) = ?s1" by simp
      with i have i1: "interleaved ?s1" using interleaved_happen by metis
      have l: "length ts < length (tasks ?s1)" by simp
      from i1 have "interleaved (foldl happen ?s1 (replicate 5 (Step (length ts))))"
        by (rule interleaved_foldl)
      then have "interleaved \<lparr>store = snd (run 5 ?t d1),
          tasks = (ts @ [?t])[length ts := fst (run 5 ?t d1)]\<rparr>"
        by (simp add: happen_steps [OF l] del: run.simps replicate.simps foldl.simps)
      moreover from True Inr reachable_upload.hyps(2)
      have "d' = snd (processAIInsight env (up_file_id req) (up_fileType req)
          (up_reportType req) (up_user req) d1)"
        by (auto simp: upload_route_def)
      ultimately show ?thesis by (auto simp: run_P_mark simp del: run.simps)
    qed
  qed
next
  case (reachable_analyze d aenv fileId userId ares d')
  then obtain ts where i: "interleaved \<lparr>store = d, tasks = ts\<rparr>" by blast
  let ?s = "\<lparr>store = d, tasks = ts\<rparr>"
  let ?t = "Analysis aenv fileId userId A_lookup"
  let ?s1 = "\<lparr>store = d, tasks = ts @ [?t]\<rparr>"
  have "happen ?s (Request aenv fileId userId) = ?s1" by simp
  with i have i1: "interleaved ?s1" using interleaved_happen by metis
  have l: "length ts < length (tasks ?s1)" by simp
  from i1 have "interleaved (foldl happen ?s1 (replicate 5 (Step (length ts))))"
    by (rule interleaved_foldl)
  then have "interleaved \<lparr>store = snd (run 5 ?t d),
      tasks = (ts @ [?t])[length ts := fst (run 5 ?t d)]\<rparr>"
    by (simp add: happen_steps [OF l] del: run.simps replicate.simps foldl.simps)
  moreover from reachable_analyze.hyps(2) have "d' = snd (analyze_route aenv fileId userId d)"
    by simp
  ultimately show ?case by (auto simp: run_A_lookup simp del: run.simps)
qed

subsubsection \<open>What holds of the database at every moment\<close>

text \<open>
  \<open>orderly\<close>: a file that is processed has an insight; a file that does not exist has no
  status; a file for which \<open>completed\<close> has been written exists and is processed; the
  statuses of a file begin with \<open>pending\<close>.
\<close>

definition orderly :: "db \<Rightarrow> bool" where
  "orderly d \<longleftrightarrow>
     (\<forall>fid f. files d fid = Some f \<and> isProcessed f \<longrightarrow> aiInsight f \<noteq> None) \<and>
     (\<forall>fid. files d fid = None \<longrightarrow> status_history d fid = []) \<and>
     (\<forall>fid. completed \<in> set (status_history d fid) \<longrightarrow>
        (\<exists>f. files d fid = Some f \<and> isProcessed f)) \<and>
     (\<forall>fid f. files d fid = Some f \<longrightarrow> (\<exists>ss. status_history d fid = pending # ss))"

text \<open>\<open>grows d d'\<close>: from \<open>d\<close> to \<open>d'\<close> statuses have been added and none removed.\<close>

definition grows :: "db \<Rightarrow> db \<Rightarrow> bool" where
  "grows d d' \<longleftrightarrow> (\<exists>hs. history d' = history d @ hs)"

lemma grows_refl: "grows d d"
  by (simp add: grows_def)

lemma grows_status_history:
  "grows d d' \<Longrightarrow> \<exists>ss. status_history d' fid = status_history d fid @ ss"
  by (auto simp: grows_def status_history_def)

lemma orderly_empty: "orderly empty_db"
  by (simp add: orderly_def empty_db_def status_history_def)

lemma orderly_write:
  assumes o: "orderly d" and f: "files d fid = Some f"
    and i: "isProcessed g \<longrightarrow> aiInsight g \<noteq> None"
    and m: "isProcessed f \<longrightarrow> isProcessed g"
    and k: "processingStatus g = completed \<longrightarrow> isProcessed g"
  shows "orderly (d\<lparr>files := (files d)(fid := Some g),
            history := history d @ [(fid, processingStatus g)]\<rparr>)"
proof -
  let ?d = "d\<lparr>files := (files d)(fid := Some g), history := history d @ [(fid, processingStatus g)]\<rparr>"
  have h: "status_history ?d fid' = (if fid' = fid then status_history d fid @ [processingStatus g]
      else status_history d fid')" for fid'
    by (simp add: status_history_def)
  have 1: "\<forall>fid' f'. files ?d fid' = Some f' \<and> isProcessed f' \<longrightarrow> aiInsight f' \<noteq> None"
    using o i by (auto simp: orderly_def)
  have 2: "\<forall>fid'. files ?d fid' = None \<longrightarrow> status_history ?d fid' = []"
    using o by (auto simp: orderly_def h)
  have 3: "\<forall>fid'. completed \<in> set (status_history ?d fid') \<longrightarrow>
      (\<exists>f'. files ?d fid' = Some f' \<and> isProcessed f')"
  proof (intro allI impI)
    fix fid' assume c: "completed \<in> set (status_history ?d fid')"
    show "\<exists>f'. files ?d fid' = Some f' \<and> isProcessed f'"
    proof (cases "fid' = fid")
      case True
      from c True have "completed \<in> set (status_history d fid) \<or> processingStatus g = completed"
        by (auto simp: h)
      then have "isProcessed g"
      proof
        assume "completed \<in> set (status_history d fid)"
        with o obtain f0 where "files d fid = Some f0" "isProcessed f0"
          unfolding orderly_def by blast
        with f m show ?thesis by simp
      next
        assume "processingStatus g = completed"
        with k show ?thesis by simp
      qed
      with True show ?thesis by simp
    next
      case False
      with c have "completed \<in> set (status_history d fid')" by (simp add: h)
      with o obtain f0 where "files d fid' = Some f0" "isProcessed f0"
        unfolding orderly_def by blast
      with False show ?thesis by simp
    qed
  qed
  have 4: "\<forall>fid' f'. files ?d fid' = Some f' \<longrightarrow> (\<exists>ss. status_history ?d fid' = pending # ss)"
  proof (intro allI impI)
    fix fid' f' assume e: "files ?d fid' = Some f'"
    show "\<exists>ss. status_history ?d fid' = pending # ss"
    proof (cases "fid' = fid")
      case True
      from o f obtain ss where "status_history d fid = pending # ss"
        unfolding orderly_def by blast
      with True show ?thesis by (simp add: h)
    next
      case False
      with e have "files d fid' = Some f'" by simp
      with o obtain ss where "status_history d fid' = pending # ss"
        unfolding orderly_def by blast
      with False show ?thesis by (simp add: h)
    qed
  qed
  from 1 2 3 4 show ?thesis unfolding orderly_def by blast
qed

lemma orderly_update:
  assumes "orderly d" and "File_findByIdAndUpdate th fid upd d = Inr d'"
    and "upd = set_processing \<or> upd = set_failed \<or> upd = set_completed iid"
  shows "orderly d' \<and> grows d d'"
proof (cases "files d fid")
  case None
  with assms(2) have "d' = d" by (simp add: File_findByIdAndUpdate_def split: if_splits)
  with assms(1) show ?thesis by (simp add: grows_refl)
next
  case (Some f)
  with assms(2) have e: "d' = d\<lparr>files := (files d)(fid := Some (upd f)),
      history := history d @ [(fid, processingStatus (upd f))]\<rparr>"
    by (simp add: File_findByIdAndUpdate_def split: if_splits)
  have "orderly (d\<lparr>files := (files d)(fid := Some (upd f)),
      history := history d @ [(fid, processingStatus (upd f))]\<rparr>)"
    using assms(1) Some
  proof (rule orderly_write)
    from assms(1) Some have p: "isProcessed f \<longrightarrow> aiInsight f \<noteq> None"
      unfolding orderly_def by blast
    from assms(3) p show "isProcessed (upd f) \<longrightarrow> aiInsight (upd f) \<noteq> None"
      by (auto simp: set_processing_def set_failed_def set_completed_def)
    from assms(3) show "isProcessed f \<longrightarrow> isProcessed (upd f)"
      by (auto simp: set_processing_def set_failed_def set_completed_def)
    from assms(3) assms(1) Some
    show "processingStatus (upd f) = completed \<longrightarrow> isProcessed (upd f)"
      by (auto simp: set_processing_def set_failed_def set_completed_def)
  qed
  with e show ?thesis by (simp add: grows_def)
qed

lemma orderly_insight:
  assumes "orderly d" and "AiInsight_save th iid doc d = Inr d'"
  shows "orderly d' \<and> grows d d'"
proof -
  from assms(2) have "d' = d\<lparr>insights := (insights d)(iid := Some doc)\<rparr>"
    by (simp add: AiInsight_save_def split: if_splits)
  with assms(1) show ?thesis by (auto simp: orderly_def grows_def)
qed

lemma orderly_File_save:
  assumes "orderly d" and "File_save th fid (new_file req) d = Inr d'"
  shows "orderly d' \<and> grows d d'"
proof -
  from assms(2) have n: "files d fid = None"
    and e: "d' = d\<lparr>files := (files d)(fid := Some (new_file req)),
      history := history d @ [(fid, pending)]\<rparr>"
    by (simp_all add: File_save_def new_file_def split: if_splits)
  from assms(1) n have h0: "status_history d fid = []" unfolding orderly_def by blast
  have h: "status_history d' fid' = (if fid' = fid then [pending] else status_history d fid')"
    for fid'
    using h0 by (simp add: e status_history_def)
  have "orderly d'"
    unfolding orderly_def
  proof (intro conjI allI impI)
    fix fid' f assume "files d' fid' = Some f \<and> isProcessed f"
    with assms(1) show "aiInsight f \<noteq> None"
      by (auto simp: e orderly_def new_file_def split: if_splits)
  next
    fix fid' assume "files d' fid' = None"
    then have "fid' \<noteq> fid" "files d fid' = None" by (auto simp: e split: if_splits)
    with assms(1) have "status_history d fid' = []" unfolding orderly_def by blast
    with \<open>fid' \<noteq> fid\<close> show "status_history d' fid' = []" by (simp add: h)
  next
    fix fid' assume "completed \<in> set (status_history d' fid')"
    then have "fid' \<noteq> fid" "completed \<in> set (status_history d fid')"
      by (auto simp: h split: if_splits)
    with assms(1) show "\<exists>f. files d' fid' = Some f \<and> isProcessed f"
      by (auto simp: e orderly_def)
  next
    fix fid' f assume a: "files d' fid' = Some f"
    show "\<exists>ss. status_history d' fid' = pending # ss"
    proof (cases "fid' = fid")
      case True
      then show ?thesis by (simp add: h)
    next
      case False
      with a have "files d fid' = Some f" by (simp add: e)
      with assms(1) obtain ss where "status_history d fid' = pending # ss"
        unfolding orderly_def by blast
      with False show ?thesis by (simp add: h)
    qed
  qed
  with e show ?thesis by (simp add: grows_def)
qed

lemma orderly_pipeline_step:
  assumes "orderly d" and "pipeline_step env fid ft rt uid stage d = (stage', d')"
  shows "orderly d' \<and> grows d d'"
proof (cases stage)
  case P_mark
  with assms show ?thesis
    by (auto simp: pipeline_step_def grows_refl split: sum.splits
        dest: orderly_update [where upd = set_processing])
next
  case P_find
  with assms show ?thesis
    by (auto simp: pipeline_step_def grows_refl split: sum.splits option.splits)
next
  case (P_save fl fd g)
  with assms show ?thesis
    by (auto simp: pipeline_step_def grows_refl split: sum.splits dest: orderly_insight)
next
  case P_link
  with assms show ?thesis
    by (auto simp: pipeline_step_def grows_refl split: sum.splits
        dest: orderly_update [where upd = "set_completed (insight_id env)"])
next
  case P_catch
  with assms show ?thesis
    by (auto simp: pipeline_step_def grows_refl split: sum.splits
        dest: orderly_update [where upd = set_failed])
next
  case (P_done r)
  with assms show ?thesis by (auto simp: pipeline_step_def grows_refl)
qed

lemma orderly_analyze_step:
  assumes "orderly d" and "analyze_step env fid uid stage d = (stage', d')"
  shows "orderly d' \<and> grows d d'"
proof (cases stage)
  case A_lookup
  with assms show ?thesis
    by (auto simp: analyze_step_def grows_refl split: sum.splits option.splits if_splits)
next
  case A_mark
  with assms show ?thesis
    by (auto simp: analyze_step_def grows_refl split: sum.splits
        dest: orderly_update [where upd = set_processing])
next
  case A_save
  with assms show ?thesis
    by (auto simp: analyze_step_def grows_refl split: sum.splits dest: orderly_insight)
next
  case A_link
  with assms show ?thesis
    by (auto simp: analyze_step_def grows_refl split: sum.splits
        dest: orderly_update [where upd = "set_completed (new_insight_id env)"])
next
  case A_catch
  with assms show ?thesis
    by (auto simp: analyze_step_def grows_refl split: sum.splits
        dest: orderly_update [where upd = set_failed])
next
  case (A_done r)
  with assms show ?thesis by (auto simp: analyze_step_def grows_refl)
qed

lemma orderly_task_step:
  assumes "orderly d" and "task_step t d = (t', d')"
  shows "orderly d' \<and> grows d d'"
proof (cases t)
  case (Pipeline env fid ft rt uid stage)
  with assms show ?thesis
    by (auto split: prod.splits dest: orderly_pipeline_step)
next
  case (Analysis env fid uid stage)
  with assms show ?thesis
    by (auto split: prod.splits dest: orderly_analyze_step)
qed

lemma orderly_happen:
  assumes "orderly (store s)"
  shows "orderly (store (happen s e)) \<and> grows (store s) (store (happen s e))"
proof (cases e)
  case (Upload env req)
  with assms show ?thesis
    by (auto simp: grows_refl split: sum.splits dest: orderly_File_save)
next
  case (Request env fid uid)
  with assms show ?thesis by (simp add: grows_refl)
next
  case (Step i)
  show ?thesis
  proof (cases "i < length (tasks s)")
    case False
    with Step assms show ?thesis by (simp add: grows_refl)
  next
    case True
    obtain t' d' where t: "task_step (tasks s ! i) (store s) = (t', d')" by force
    from orderly_task_step [OF assms t] Step True t show ?thesis by simp
  qed
qed

lemma interleaved_orderly: "interleaved s \<Longrightarrow> orderly (store s)"
proof (induction rule: interleaved.induct)
  case interleaved_idle
  show ?case by (simp add: idle_def orderly_empty)
next
  case (interleaved_happen s e)
  then show ?case using orderly_happen by blast
qed

subsubsection \<open>The claim\<close>

lemma schedule_upload_alone:
  assumes "up_valid req"
    and "File_save (up_save_throws req) (up_file_id req) (new_file req) empty_db = Inr d1"
  shows "store (schedule (Upload env req # replicate 5 (Step 0)))
     = snd (upload_route env req empty_db)"
proof -
  let ?t = "Pipeline env (up_file_id req) (up_fileType req) (up_reportType req) (up_user req)
      P_mark"
  let ?s1 = "\<lparr>store = d1, tasks = [?t]\<rparr>"
  from assms have h: "happen idle (Upload env req) = ?s1" by (simp add: idle_def)
  have l: "0 < length (tasks ?s1)" by simp
  have "schedule (Upload env req # replicate 5 (Step 0))
      = foldl happen ?s1 (replicate 5 (Step 0))"
    by (simp add: schedule_def h del: happen.simps replicate.simps)
  then have "store (schedule (Upload env req # replicate 5 (Step 0))) = snd (run 5 ?t d1)"
    by (simp add: happen_steps [OF l] del: run.simps replicate.simps foldl.simps)
  with assms show ?thesis by (simp add: run_P_mark upload_route_def del: run.simps)
qed

text \<open>
  C4, as the code has it. In every state of the server, requests and pipelines
  overlapping as they may:

  \<^item> an event adds statuses to the sequence of a file and removes none;
  \<^item> a file for which \<open>completed\<close> has been written is processed and has an insight;
  \<^item> the lookup of a request to analyse such a file, made by its owner and not throwing,
    ends the request with 400 \<open>File already processed\<close> and leaves the database as it is;
    a request that is answered takes no further step.

  When each request and each pipeline runs to its end before the next begins, no file has
  \<open>processing\<close> written after \<open>completed\<close>. The sequence of statuses need not be a prefix
  of pending, processing, completed or failed.
\<close>

theorem processed_file_rejected:
  "(interleaved s \<longrightarrow>
      (\<exists>ss. status_history (store (happen s e)) fid = status_history (store s) fid @ ss) \<and>
      (completed \<in> set (status_history (store s) fid) \<longrightarrow>
         (\<exists>f. files (store s) fid = Some f \<and> isProcessed f \<and> aiInsight f \<noteq> None)) \<and>
      (completed \<in> set (status_history (store s) fid) \<and>
       (\<exists>f. files (store s) fid = Some f \<and> owner f = uid) \<and> \<not> findOne_throws aenv \<longrightarrow>
         task_step (Analysis aenv fid uid A_lookup) (store s)
           = (Analysis aenv fid uid
                (A_done (Some \<lparr>code = 400, message = js ''File already processed''\<rparr>)),
              store s))) \<and>
   task_step (Analysis aenv fid uid (A_done r)) d = (Analysis aenv fid uid (A_done r), d) \<and>
   (reachable d \<longrightarrow>
      (\<exists>ts. interleaved \<lparr>store = d, tasks = ts\<rparr>) \<and> no_reprocess (status_history d fid))"
proof -
  have 1: "(\<exists>ss. status_history (store (happen s e)) fid = status_history (store s) fid @ ss) \<and>
      (completed \<in> set (status_history (store s) fid) \<longrightarrow>
         (\<exists>f. files (store s) fid = Some f \<and> isProcessed f \<and> aiInsight f \<noteq> None)) \<and>
      (completed \<in> set (status_history (store s) fid) \<and>
       (\<exists>f. files (store s) fid = Some f \<and> owner f = uid) \<and> \<not> findOne_throws aenv \<longrightarrow>
         task_step (Analysis aenv fid uid A_lookup) (store s)
           = (Analysis aenv fid uid
                (A_done (Some \<lparr>code = 400, message = js ''File already processed''\<rparr>)),
              store s))"
    if i: "interleaved s"
  proof -
    from i have o: "orderly (store s)" by (rule interleaved_orderly)
    from orderly_happen [OF o, of e]
    have a: "\<exists>ss. status_history (store (happen s e)) fid = status_history (store s) fid @ ss"
      using grows_status_history by blast
    have b: "\<exists>f. files (store s) fid = Some f \<and> isProcessed f \<and> aiInsight f \<noteq> None"
      if "completed \<in> set (status_history (store s) fid)"
      using o that unfolding orderly_def by blast
    have c: "task_step (Analysis aenv fid uid A_lookup) (store s)
           = (Analysis aenv fid uid
                (A_done (Some \<lparr>code = 400, message = js ''File already processed''\<rparr>)),
              store s)"
      if h: "completed \<in> set (status_history (store s) fid)"
        and f: "files (store s) fid = Some f" "owner f = uid" and t: "\<not> findOne_throws aenv"
      for f
    proof -
      from b [OF h] f have "isProcessed f" "aiInsight f \<noteq> None" by auto
      with f t show ?thesis by (simp add: analyze_step_def File_findOne_def)
    qed
    from a b c show ?thesis by blast
  qed
  have 2: "task_step (Analysis aenv fid uid (A_done r)) d = (Analysis aenv fid uid (A_done r), d)"
    by (simp add: analyze_step_def)
  have 3: "(\<exists>ts. interleaved \<lparr>store = d, tasks = ts\<rparr>) \<and> no_reprocess (status_history d fid)"
    if r: "reachable d"
  proof -
    from r have "consistent d" by (rule reachable_consistent)
    then have "no_reprocess (status_history d fid)" by (simp add: consistent_def)
    with reachable_interleaved [OF r] show ?thesis by blast
  qed
  from 1 2 3 show ?thesis by blast
qed

text \<open>
  The theorem at the server once the upload of the report and its pipeline have ended
  with \<open>completed\<close>, for a request of the owner to analyse the report.
\<close>

theorem processed_file_rejected_witness:
  \<open>interleaved (schedule (Upload (model_answers (js ''{"confidence":90}'')) report_upload
       # replicate 5 (Step 0))) \<and>
   store (schedule (Upload (model_answers (js ''{"confidence":90}'')) report_upload
       # replicate 5 (Step 0))) = report_completed \<and>
   status_history report_completed 1 = [pending, processing, completed] \<and>
   files report_completed 1 = Some (set_completed 10 report_file) \<and>
   owner (set_completed 10 report_file) = 7 \<and>
   task_step (Analysis no_faults 1 7 A_lookup) report_completed
     = (Analysis no_faults 1 7
          (A_done (Some \<lparr>code = 400, message = js ''File already processed''\<rparr>)),
        report_completed) \<and>
   reachable report_completed \<and>
   no_reprocess (status_history report_completed 1)\<close>
proof -
  let ?es = \<open>Upload (model_answers (js ''{"confidence":90}'')) report_upload
       # replicate 5 (Step 0)\<close>
  have i: "interleaved (schedule ?es)" by (rule interleaved_schedule)
  have v: "up_valid report_upload" by (simp add: report_upload_def)
  have "\<exists>d1. File_save (up_save_throws report_upload) (up_file_id report_upload)
      (new_file report_upload) empty_db = Inr d1"
    by (simp add: File_save_def report_upload_def empty_db_def)
  then obtain d1 where "File_save (up_save_throws report_upload) (up_file_id report_upload)
      (new_file report_upload) empty_db = Inr d1" ..
  from schedule_upload_alone [OF v this] upload_report_completed
  have s: "store (schedule ?es) = report_completed" by simp
  have r: "reachable report_completed"
    using reachable_empty upload_report_completed by (rule reachable_upload)
  have h: "status_history report_completed 1 = [pending, processing, completed]"
    by (simp add: status_history_def report_completed_def)
  have f: "files report_completed 1 = Some (set_completed 10 report_file)"
    by (simp add: report_completed_def)
  have w: "owner (set_completed 10 report_file) = 7"
    by (simp add: set_completed_def report_file_fields)
  have t: "\<not> findOne_throws no_faults" by (simp add: no_faults_def)
  note c = processed_file_rejected [of "schedule ?es" "Step 0" 1 7 no_faults None
      report_completed]
  from c i s h f w t
  have 1: "task_step (Analysis no_faults 1 7 A_lookup) report_completed
     = (Analysis no_faults 1 7
          (A_done (Some \<lparr>code = 400, message = js ''File already processed''\<rparr>)),
        report_completed)"
    by (simp del: One_nat_def task_step.simps)
  from c r have 2: "no_reprocess (status_history report_completed 1)" by blast
  from i s h f w 1 r 2 show ?thesis by (intro conjI)
qed

text \<open>
  The claim as it was stated fails in two ways. A request to analyse the report arrives
  while the pipeline of the upload waits for the external model: its lookup finds the
  report not processed, the pipeline then saves its insight and writes \<open>completed\<close>, and
  the request goes on to write \<open>processing\<close>. And a report whose insight the validator
  refused (confidence 150) is left \<open>failed\<close> by the upload and is taken by the route
  again.
\<close>

definition overlap :: "event list" where
  \<open>overlap =
     [Upload (model_answers (js ''{"confidence":90}'')) report_upload,
      Step 0, Step 0,
      Request no_faults 1 7,
      Step 1,
      Step 0, Step 0,
      Step 1]\<close>

lemma report_file_type: "fileType report_file = js ''pdf''"
  by (simp add: report_file_def set_processing_def new_file_def report_upload_def)

lemma schedule_overlap:
  \<open>schedule overlap
     = \<lparr>store = report_completed
          \<lparr>files := (files report_completed)
             (1 := Some (set_processing (set_completed 10 report_file))),
           history := history report_completed @ [(1, processing)]\<rparr>,
        tasks =
          [Pipeline (model_answers (js ''{"confidence":90}'')) 1 (js ''pdf'') (js ''blood-test'') 7
             (P_done Returned),
           Analysis no_faults 1 7 A_save]\<rparr>\<close>
proof -
  let ?env = \<open>model_answers (js ''{"confidence":90}'')\<close>
  let ?p = "Pipeline ?env 1 (js ''pdf'') (js ''blood-test'') 7"
  let ?a = "Analysis no_faults 1 7"
  let ?g = "\<lparr>success = True, data = JObj [(js ''confidence'', JNum 90)], processingTime = 1500,
      fallback = False\<rparr>"
  let ?d0 = "\<lparr>files = (\<lambda>i. None)(1 := Some (new_file report_upload)), insights = (\<lambda>i. None),
      history = [(1, pending)]\<rparr>"
  let ?d2 = "report_processing\<lparr>insights := (insights report_processing)
      (10 := Some (bare_insight 1 7 report_text 90 1500))\<rparr>"
  let ?d4 = "report_completed\<lparr>files := (files report_completed)
      (1 := Some (set_processing (set_completed 10 report_file))),
      history := history report_completed @ [(1, processing)]\<rparr>"
  have e: "update_processing_throws ?env = False" "findById_throws ?env = False"
    "save_throws ?env = False" "update_completed_throws ?env = False" "insight_id ?env = 10"
    "elapsed ?env = 1500" \<open>generate ?env = (\<lambda>r. Inr (js ''{"confidence":90}''))\<close>
    by (simp_all add: model_answers_def)
  have n: "findOne_throws no_faults = False" "mark_processing_throws no_faults = False"
    by (simp_all add: no_faults_def)
  have a1: "happen idle (Upload ?env report_upload) = \<lparr>store = ?d0, tasks = [?p P_mark]\<rparr>"
    by (simp add: idle_def File_save_def empty_db_def report_upload_def new_file_def)
  have a2: "happen \<lparr>store = ?d0, tasks = [?p P_mark]\<rparr> (Step 0)
      = \<lparr>store = report_processing, tasks = [?p P_find]\<rparr>"
    by (simp add: pipeline_step_def File_findByIdAndUpdate_def e report_processing_def
        report_file_def set_processing_def del: One_nat_def)
  have g: "analyzeMedicalReport (generate ?env) 1500 (Text report_text) (js ''pdf'')
      (js ''blood-test'') = ?g"
    by (simp add: analyzeMedicalReport_text_reply [OF pdf_is_no_image] e(7)
        parseGeminiResponse_confidence_90)
  have a3: "happen \<lparr>store = report_processing, tasks = [?p P_find]\<rparr> (Step 0)
      = \<lparr>store = report_processing, tasks = [?p (P_save report_file (Text report_text) ?g)]\<rparr>"
    by (simp add: pipeline_step_def File_findById_def e(1-6) report_processing_fields
        prepare_fileData_def report_file_type pdf_is_no_image report_text_def [symmetric] g
        del: One_nat_def)
  have a4: "happen \<lparr>store = report_processing,
        tasks = [?p (P_save report_file (Text report_text) ?g)]\<rparr> (Request no_faults 1 7)
      = \<lparr>store = report_processing,
         tasks = [?p (P_save report_file (Text report_text) ?g), ?a A_lookup]\<rparr>"
    by simp
  have a5: "happen \<lparr>store = report_processing,
        tasks = [?p (P_save report_file (Text report_text) ?g), ?a A_lookup]\<rparr> (Step 1)
      = \<lparr>store = report_processing,
         tasks = [?p (P_save report_file (Text report_text) ?g), ?a A_mark]\<rparr>"
    by (simp add: analyze_step_def File_findOne_def n report_processing_def
        report_file_fields)
  have a6: "happen \<lparr>store = report_processing,
        tasks = [?p (P_save report_file (Text report_text) ?g), ?a A_mark]\<rparr> (Step 0)
      = \<lparr>store = ?d2, tasks = [?p P_link, ?a A_mark]\<rparr>"
    by (simp add: pipeline_step_def build_report_insight AiInsight_save_def
        schema_rejects_bare_insight e(1-6) report_processing_fields del: One_nat_def)
  have a7: "happen \<lparr>store = ?d2, tasks = [?p P_link, ?a A_mark]\<rparr> (Step 0)
      = \<lparr>store = report_completed, tasks = [?p (P_done Returned), ?a A_mark]\<rparr>"
    by (simp add: pipeline_step_def File_findByIdAndUpdate_def e(1-6) report_processing_def
        report_completed_def del: One_nat_def)
      (simp add: set_completed_def)
  have a8: "happen \<lparr>store = report_completed, tasks = [?p (P_done Returned), ?a A_mark]\<rparr> (Step 1)
      = \<lparr>store = ?d4, tasks = [?p (P_done Returned), ?a A_save]\<rparr>"
    by (simp add: analyze_step_def File_findByIdAndUpdate_def n report_completed_def)
      (simp add: set_processing_def)
  show ?thesis
    by (simp only: schedule_def overlap_def foldl_Cons foldl_Nil a1 a2 a3 a4 a5 a6 a7 a8)
qed

theorem lifecycle_prefix_counterexample:
  \<open>interleaved (schedule overlap) \<and>
   status_history (store (schedule overlap)) 1 = [pending, processing, completed, processing] \<and>
   \<not> no_reprocess (status_history (store (schedule overlap)) 1) \<and>
   \<not> lifecycle_prefix (status_history (store (schedule overlap)) 1) \<and>
   upload_route (model_answers (js ''{"confidence":150}'')) report_upload empty_db
     = (\<lparr>code = 201, message = js ''File uploaded successfully''\<rparr>, report_rejected) \<and>
   analyze_route no_faults 1 7 report_rejected
     = (Some \<lparr>code = 200, message = js ''AI analysis completed successfully''\<rparr>,
        report_reanalysed) \<and>
   reachable report_reanalysed \<and>
   status_history report_reanalysed 1 = [pending, processing, failed, processing, completed] \<and>
   \<not> lifecycle_prefix (status_history report_reanalysed 1)\<close>
proof -
  have i: "interleaved (schedule overlap)" by (rule interleaved_schedule)
  have o: "status_history (store (schedule overlap)) 1
      = [pending, processing, completed, processing]"
    by (simp add: schedule_overlap status_history_def report_completed_def)
  have p: "\<not> no_reprocess (status_history (store (schedule overlap)) 1)"
    "\<not> lifecycle_prefix (status_history (store (schedule overlap)) 1)"
    unfolding o lifecycle_prefix_def by simp_all
  have "reachable report_rejected"
    using reachable_empty upload_report_rejected by (rule reachable_upload)
  then have r: "reachable report_reanalysed"
    using analyze_report_rejected by (rule reachable_analyze)
  have h: "status_history report_reanalysed 1
      = [pending, processing, failed, processing, completed]"
    by (simp add: status_history_def report_reanalysed_def)
  have n: "\<not> lifecycle_prefix (status_history report_reanalysed 1)"
    unfolding h lifecycle_prefix_def by simp
  from i o p upload_report_rejected analyze_report_rejected r h n show ?thesis
    by (intro conjI)
qed

subsection \<open>\<open>isProcessed\<close> and the status (claim C5)\<close>

definition processed_iff :: "file_doc \<Rightarrow> bool" where
  "processed_iff f \<longleftrightarrow>
     (isProcessed f \<longleftrightarrow> processingStatus f = completed \<and> aiInsight f \<noteq> None)"

lemma processed_iff_new_file: "processed_iff (new_file req)"
  by (simp add: processed_iff_def new_file_def)

lemma processed_iff_set_completed: "processed_iff (set_completed iid f)"
  by (simp add: processed_iff_def set_completed_def)

lemma processed_iff_unprocessed:
  "\<not> isProcessed f \<Longrightarrow> processed_iff (set_processing f) \<and> processed_iff (set_failed f)"
  by (simp add: processed_iff_def set_processing_def set_failed_def)

text \<open>
  C5 does not hold of the route \<open>POST /api/ai/analyze-file/:fileId\<close>. Its \<open>catch\<close> block
  writes \<open>failed\<close> to the file of the request whatever the \<open>try\<close> block had reached,
  and the lookup \<open>File.findOne\<close> is inside the \<open>try\<close> block. For the report whose upload
  ended with \<open>completed\<close> (the invariant holds of it), a request of its owner whose lookup
  throws is answered 500 and leaves the file with \<open>isProcessed\<close> true, an insight, and the
  status \<open>failed\<close>.
\<close>

theorem analyze_route_breaks_processed_iff:
  \<open>upload_route (model_answers (js ''{"confidence":90}'')) report_upload empty_db
     = (\<lparr>code = 201, message = js ''File uploaded successfully''\<rparr>, report_completed) \<and>
   files report_completed 1 = Some (set_completed 10 report_file) \<and>
   processed_iff (set_completed 10 report_file) \<and>
   analyze_route (no_faults\<lparr>findOne_throws := True\<rparr>) 1 7 report_completed
     = (Some \<lparr>code = 500, message = js ''AI analysis failed''\<rparr>,
        report_completed\<lparr>files := (files report_completed)
            (1 := Some (set_failed (set_completed 10 report_file))),
          history := history report_completed @ [(1, failed)]\<rparr>) \<and>
   isProcessed (set_failed (set_completed 10 report_file)) \<and>
   aiInsight (set_failed (set_completed 10 report_file)) = Some 10 \<and>
   processingStatus (set_failed (set_completed 10 report_file)) = failed \<and>
   \<not> processed_iff (set_failed (set_completed 10 report_file))\<close>
proof -
  have f: "files report_completed 1 = Some (set_completed 10 report_file)"
    by (simp add: report_completed_def)
  have a: "analyze_route (no_faults\<lparr>findOne_throws := True\<rparr>) 1 7 report_completed
     = (Some \<lparr>code = 500, message = js ''AI analysis failed''\<rparr>,
        report_completed\<lparr>files := (files report_completed)
            (1 := Some (set_failed (set_completed 10 report_file))),
          history := history report_completed @ [(1, failed)]\<rparr>)"
    by (simp add: analyze_route_def analyze_try_def File_findOne_def File_findByIdAndUpdate_def
        no_faults_def f set_failed_def del: One_nat_def)
  have s: "isProcessed (set_failed (set_completed 10 report_file))"
    "aiInsight (set_failed (set_completed 10 report_file)) = Some 10"
    "processingStatus (set_failed (set_completed 10 report_file)) = failed"
    by (simp_all add: set_failed_def set_completed_def)
  have n: "\<not> processed_iff (set_failed (set_completed 10 report_file))"
    by (simp add: processed_iff_def s)
  from upload_report_completed f processed_iff_set_completed a s n show ?thesis
    by (intro conjI)
qed

text \<open>
  The same state is reached with no call of the database throwing, when the request comes
  while the pipeline of the upload waits for the external model: the route completes the
  file with its sample insight, then the pipeline has its own insight refused (confidence
  150) and its \<open>catch\<close> block writes \<open>failed\<close>.
\<close>

lemma overlapping_analysis_breaks_processed_iff:
  \<open>\<exists>d1 d2.
     analyze_route no_faults 1 7 report_processing
       = (Some \<lparr>code = 200, message = js ''AI analysis completed successfully''\<rparr>, d1) \<and>
     files d1 1 = Some (set_completed 11 (set_processing report_file)) \<and>
     pipeline_finish (model_answers (js ''{"confidence":150}'')) 1 7 report_file
       (Text report_text)
       \<lparr>success = True, data = JObj [(js ''confidence'', JNum 150)], processingTime = 1500,
         fallback = False\<rparr> d1 = (Returned, d2) \<and>
     files d2 1 = Some (set_failed (set_completed 11 (set_processing report_file))) \<and>
     \<not> processed_iff (set_failed (set_completed 11 (set_processing report_file)))\<close>
proof -
  let ?env = \<open>model_answers (js ''{"confidence":150}'')\<close>
  let ?g = "\<lparr>success = True, data = JObj [(js ''confidence'', JNum 150)], processingTime = 1500,
         fallback = False\<rparr>"
  let ?f = "set_completed 11 (set_processing report_file)"
  let ?d1 = "\<lparr>files = (\<lambda>i. None)(1 := Some ?f),
      insights = (\<lambda>i. None)(11 := Some (sample_insight 1 7 3000)),
      history = [(1, pending), (1, processing), (1, processing), (1, completed)]\<rparr>"
  have a: "analyze_route no_faults 1 7 report_processing
       = (Some \<lparr>code = 200, message = js ''AI analysis completed successfully''\<rparr>, ?d1)"
    by (simp add: analyze_route_def analyze_try_def File_findOne_def File_findByIdAndUpdate_def
      AiInsight_save_def schema_accepts_sample_insight no_faults_def report_processing_def
      set_processing_def set_completed_def report_file_fields del: One_nat_def)
  have f: "files ?d1 1 = Some ?f" by simp
  have "pipeline_finish ?env 1 7 report_file (Text report_text) ?g ?d1
    = (Returned, ?d1\<lparr>files := (files ?d1)(1 := Some (set_failed ?f)),
         history := history ?d1 @ [(1, failed)]\<rparr>)"
    by (rule pipeline_finish_not_saved [where doc = "bare_insight 1 7 report_text 150 1500"])
      (simp_all add: build_report_insight schema_rejects_bare_insight model_answers_def
        del: One_nat_def)
  then have p: "\<exists>d2. pipeline_finish ?env 1 7 report_file (Text report_text) ?g ?d1
      = (Returned, d2) \<and> files d2 1 = Some (set_failed ?f)"
    by simp
  have n: "\<not> processed_iff (set_failed ?f)"
    by (simp add: processed_iff_def set_failed_def set_completed_def)
  from a f p n show ?thesis by blast
qed

end
